theory Spec2Isabelle
  imports Complex_Main "HOL-Library.AList" "HOL-Library.Multiset"
begin

section \<open>Values exchanged with the identity provider\<close>

text \<open>
  Python strings are modelled as lists of 8-bit characters (ASCII text, or the UTF-8
  bytes of other text). A parsed JSON body is a value of \<open>json\<close>; a JSON object is the
  association list of its keys, in the order of the parsed dictionary, each key once.
  \<open>JNull\<close> is Python's \<open>None\<close>, which is also what an \<open>Optional\<close> value holds when absent.
  Numbers are rationals (every finite float is one); the literals NaN and Infinity are
  not represented.
\<close>

datatype json =
    JNull
  | JBool bool
  | JNum rat
  | JStr string
  | JArr "json list"
  | JObj "(string \<times> json) list"

text \<open>Python's truth value of a parsed JSON value (\<open>bool(x)\<close>).\<close>

fun truthy :: "json \<Rightarrow> bool" where
  "truthy JNull = False"
| "truthy (JBool b) = b"
| "truthy (JNum n) = (n \<noteq> 0)"
| "truthy (JStr s) = (s \<noteq> [])"
| "truthy (JArr xs) = (xs \<noteq> [])"
| "truthy (JObj kvs) = (kvs \<noteq> [])"

text \<open>
  A header value is a string. The authorization header is the f-string
  \<open>f"Bearer {self.bearer_token}"\<close>; it is kept symbolic in the token, which the code
  takes from the provider's JSON without checking that it is a string.
\<close>

datatype hval = Str string | Bearer json

type_synonym headers = "(string \<times> hval) list"

record request =
  req_method :: string
  req_url :: string
  req_json :: json
  req_headers :: headers

text \<open>
  What \<open>requests\<close> hands back: \<open>status_code\<close>, \<open>text\<close>, and the value of
  \<open>response.json()\<close>, \<open>None\<close> when that call raises (the body is not JSON).
\<close>

record response =
  status_code :: int
  body_text :: string
  body_json :: "json option"

text \<open>
  One HTTP attempt either returns a response or raises a
  \<open>requests.exceptions.RequestException\<close>, carried with its message \<open>str(e)\<close>.
\<close>

datatype attempt = Response response | RequestException string

section \<open>The world outside the process\<close>

text \<open>
  \<open>time.sleep\<close> is called at two places of the retrying client: the throttle before
  every attempt and the back-off wait before a retry. The log of sleeps keeps the place
  with the duration.
\<close>

datatype sleep_site = Throttle | Backoff

text \<open>
  The world holds the process environment, the provider (its answer to a request may
  depend on every request sent before), the log of requests sent and the log of sleeps.
\<close>

record world =
  environ :: "string \<rightharpoonup> string"
  server :: "request list \<Rightarrow> request \<Rightarrow> attempt"
  sent :: "request list"
  slept :: "(sleep_site \<times> rat) list"

text \<open>The exceptions the code can raise, one constructor per raising place.\<close>

datatype error =
    Region_ValueError              \<comment> \<open>\<open>ValueError("FRONTEGG_REGION must be one of: EU, US, AP")\<close>\<close>
  | Credentials_ValueError         \<comment> \<open>\<open>ValueError("FRONTEGG_CLIENT_ID and FRONTEGG_API_TOKEN must be set")\<close>\<close>
  | Unsupported_method string      \<comment> \<open>\<open>ValueError(f"Unsupported method {method}")\<close>\<close>
  | Sleep_ValueError               \<comment> \<open>\<open>time.sleep\<close> of a negative duration\<close>
  | Auth_Exception int string      \<comment> \<open>\<open>Exception("Failed to authenticate ... (status {status}): {raw}")\<close>\<close>
  | TypeError                      \<comment> \<open>an operation applied to a JSON value of the wrong type\<close>
  | Empty_list_ValueError          \<comment> \<open>\<open>ValueError("USER_ID_ARRAY must not be empty")\<close>\<close>
  | Invalid_action_ValueError      \<comment> \<open>\<open>ValueError("Invalid action, must be 'lock' or 'delete'")\<close>\<close>
  | SystemExit int                 \<comment> \<open>\<open>sys.exit(2)\<close> in \<open>main\<close>\<close>

definition getenv :: "world \<Rightarrow> string \<Rightarrow> string \<Rightarrow> string" where
  "getenv w k d = (case environ w k of None \<Rightarrow> d | Some v \<Rightarrow> v)"

definition sleep :: "sleep_site \<Rightarrow> rat \<Rightarrow> world \<Rightarrow> (error + unit) \<times> world" where
  "sleep site d w =
     (if d < 0 then (Inl Sleep_ValueError, w)
      else (Inr (), w\<lparr>slept := slept w @ [(site, d)]\<rparr>))"

section \<open>Strings\<close>

text \<open>\<open>str.isspace\<close> on ASCII: tab, newline, VT, FF, CR, FS, GS, RS, US and space.\<close>

definition isspace :: "char \<Rightarrow> bool" where
  "isspace c = ((of_char c :: nat) \<in> {9, 10, 11, 12, 13, 28, 29, 30, 31, 32})"

definition strip :: "string \<Rightarrow> string" where
  "strip s = rev (dropWhile isspace (rev (dropWhile isspace s)))"

definition upper_char :: "char \<Rightarrow> char" where
  "upper_char c =
     (if 97 \<le> (of_char c :: nat) \<and> (of_char c :: nat) \<le> 122
      then char_of ((of_char c :: nat) - 32) else c)"

definition upper :: "string \<Rightarrow> string" where
  "upper s = map upper_char s"

definition lower_char :: "char \<Rightarrow> char" where
  "lower_char c =
     (if 65 \<le> (of_char c :: nat) \<and> (of_char c :: nat) \<le> 90
      then char_of ((of_char c :: nat) + 32) else c)"

definition lower :: "string \<Rightarrow> string" where
  "lower s = map lower_char s"

text \<open>
  \<open>urllib.parse.quote_plus\<close> with no safe characters: letters, digits and \<open>_.-~\<close> stay,
  a space becomes \<open>+\<close>, every other byte becomes \<open>%XX\<close> in upper-case hexadecimal.
\<close>

definition always_safe :: "char \<Rightarrow> bool" where
  "always_safe c =
     (c \<in> set ''ABCDEFGHIJKLMNOPQRSTUVWXYZabcdefghijklmnopqrstuvwxyz0123456789_.-~'')"

definition hex_digit :: "nat \<Rightarrow> char" where
  "hex_digit n = ''0123456789ABCDEF'' ! (n mod 16)"

definition quote_plus_char :: "char \<Rightarrow> string" where
  "quote_plus_char c =
     (if always_safe c then [c]
      else if c = CHR '' '' then ''+''
      else [CHR ''%'', hex_digit ((of_char c :: nat) div 16), hex_digit (of_char c :: nat)])"

definition quote_plus :: "string \<Rightarrow> string" where
  "quote_plus s = concat (map quote_plus_char s)"

text \<open>\<open>urlencode\<close> of a dictionary of strings: \<open>k=v\<close> pairs joined by \<open>&\<close>.\<close>

fun urlencode :: "(string \<times> string) list \<Rightarrow> string" where
  "urlencode [] = []"
| "urlencode [(k, v)] = quote_plus k @ ''='' @ quote_plus v"
| "urlencode ((k, v) # kvs) = quote_plus k @ ''='' @ quote_plus v @ ''&'' @ urlencode kvs"

section \<open>The UUID pattern\<close>

text \<open>
  \<open>UUID_V4_RE\<close> is
  \<open>^[0-9a-fA-F]{8}\-[0-9a-fA-F]{4}\-[1-5][0-9a-fA-F]{3}\-[89abAB][0-9a-fA-F]{3}\-[0-9a-fA-F]{12}$\<close>.
  The matcher below consumes the string group by group. In Python \<open>$\<close> matches at the
  end of the string and also just before a newline that ends the string.
\<close>

definition is_hex :: "char \<Rightarrow> bool" where
  "is_hex c = (c \<in> set ''0123456789abcdefABCDEF'')"

fun take_class :: "(char \<Rightarrow> bool) \<Rightarrow> nat \<Rightarrow> string \<Rightarrow> string option" where
  "take_class p 0 s = Some s"
| "take_class p (Suc n) [] = None"
| "take_class p (Suc n) (c # s) = (if p c then take_class p n s else None)"

definition UUID_V4_RE :: "string \<Rightarrow> bool" where
  "UUID_V4_RE v =
     (case Option.bind (Option.bind (Option.bind (Option.bind (Option.bind
           (Option.bind (Option.bind (Option.bind (Option.bind (Option.bind
           (take_class is_hex 8 v)
           (take_class (\<lambda>c. c = CHR ''-'') 1))
           (take_class is_hex 4))
           (take_class (\<lambda>c. c = CHR ''-'') 1))
           (take_class (\<lambda>c. c \<in> set ''12345'') 1))
           (take_class is_hex 3))
           (take_class (\<lambda>c. c = CHR ''-'') 1))
           (take_class (\<lambda>c. c \<in> set ''89abAB'') 1))
           (take_class is_hex 3))
           (take_class (\<lambda>c. c = CHR ''-'') 1))
           (take_class is_hex 12)
      of None \<Rightarrow> False
       | Some rest \<Rightarrow> rest = [] \<or> rest = [CHR 0x0A])"

definition looks_like_uuid :: "string \<Rightarrow> bool" where
  "looks_like_uuid v = UUID_V4_RE v"

section \<open>The manager\<close>

datatype Region = EU | US | AP

text \<open>
  The fields of \<open>UserBulkManager\<close> that are read from the environment or assigned later.
  \<open>gateway\<close>, \<open>identity_base\<close> and \<open>default_headers\<close> are assigned once in the
  constructor from the region and from constants and never assigned again, so they are
  functions of the manager.
\<close>

record manager =
  client_id :: string
  api_token :: string
  tenant_id :: string
  region :: Region
  rate_limit_delay :: rat
  max_retries :: int
  bearer_token :: json

fun API_GATEWAY :: "Region \<Rightarrow> string" where
  "API_GATEWAY EU = ''https://api.frontegg.com''"
| "API_GATEWAY US = ''https://api.us.frontegg.com''"
| "API_GATEWAY AP = ''https://api.ap.frontegg.com''"

fun API_IDENTITY :: "Region \<Rightarrow> string" where
  "API_IDENTITY EU = ''https://api.frontegg.com/identity''"
| "API_IDENTITY US = ''https://api.us.frontegg.com/identity''"
| "API_IDENTITY AP = ''https://api.ap.frontegg.com/identity''"

definition gateway :: "manager \<Rightarrow> string" where
  "gateway m = API_GATEWAY (region m)"

definition identity_base :: "manager \<Rightarrow> string" where
  "identity_base m = API_IDENTITY (region m)"

definition default_headers :: headers where
  "default_headers =
     [(''accept'', Str ''application/json''), (''content-type'', Str ''application/json'')]"

definition Region_of :: "string \<Rightarrow> Region option" where
  "Region_of s =
     (if s = ''EU'' then Some EU else if s = ''US'' then Some US
      else if s = ''AP'' then Some AP else None)"

text \<open>
  The constructor. \<open>delay\<close> and \<open>retries\<close> are the values of
  \<open>float(os.environ.get("RATE_LIMIT_DELAY", "0.5"))\<close> and
  \<open>int(os.environ.get("MAX_RETRIES", "3"))\<close>: parsing numbers is left outside.
\<close>

definition init :: "rat \<Rightarrow> int \<Rightarrow> world \<Rightarrow> error + manager" where
  "init delay retries w =
     (case Region_of (upper (getenv w ''FRONTEGG_REGION'' ''EU'')) of
        None \<Rightarrow> Inl Region_ValueError
      | Some r \<Rightarrow>
          if getenv w ''FRONTEGG_CLIENT_ID'' '''' = [] \<or> getenv w ''FRONTEGG_API_TOKEN'' '''' = []
          then Inl Credentials_ValueError
          else Inr \<lparr>client_id = getenv w ''FRONTEGG_CLIENT_ID'' '''',
                    api_token = getenv w ''FRONTEGG_API_TOKEN'' '''',
                    tenant_id = getenv w ''FRONTEGG_TENANT_ID'' '''',
                    region = r,
                    rate_limit_delay = delay,
                    max_retries = retries,
                    bearer_token = JNull\<rparr>)"

section \<open>HTTP core\<close>

text \<open>
  Sending one request: \<open>requests.get\<close> and \<open>requests.delete\<close> send no body,
  \<open>requests.post\<close> sends the payload as JSON; any other method raises \<open>ValueError\<close>.
  The provider's answer is a function of the requests sent before and of this one.
\<close>

definition perform :: "request \<Rightarrow> world \<Rightarrow> attempt \<times> world" where
  "perform r w = (server w (sent w) r, w\<lparr>sent := sent w @ [r]\<rparr>)"

definition mk_request :: "string \<Rightarrow> string \<Rightarrow> json \<Rightarrow> headers \<Rightarrow> request" where
  "mk_request method url payload hdrs =
     \<lparr>req_method = method, req_url = url,
      req_json = (if method = ''POST'' then payload else JNull), req_headers = hdrs\<rparr>"

definition send :: "string \<Rightarrow> string \<Rightarrow> json \<Rightarrow> headers \<Rightarrow> world \<Rightarrow> (error + attempt) \<times> world" where
  "send method url payload hdrs w =
     (if method = ''GET'' \<or> method = ''POST'' \<or> method = ''DELETE''
      then (case perform (mk_request method url payload hdrs) w of (a, w') \<Rightarrow> (Inr a, w'))
      else (Inl (Unsupported_method method), w))"

type_synonym api_result = "json \<times> int \<times> string"

text \<open>The answer returned for a response that is not retried.\<close>

definition result_of :: "response \<Rightarrow> api_result" where
  "result_of r =
     (if status_code r \<in> {200, 201, 204}
      then (case body_json r of
              Some j \<Rightarrow> (j, status_code r, body_text r)
            | None \<Rightarrow> (JObj [], status_code r, body_text r))
      else (JNull, status_code r, body_text r))"

text \<open>
  \<open>_call_api_with_retry\<close>. The retry counter starts at 0 and only grows, so it is a
  natural number; \<open>max_retries\<close> is any integer. The durations are rationals standing for
  the floats of the code (a product by a power of two is exact on floats).
\<close>

function call_api_with_retry ::
  "manager \<Rightarrow> string \<Rightarrow> string \<Rightarrow> json \<Rightarrow> headers option \<Rightarrow> nat \<Rightarrow> world
     \<Rightarrow> (error + api_result) \<times> world" where
  "call_api_with_retry m method url payload hdrs retry_count w =
     (let headers = (case hdrs of None \<Rightarrow> default_headers | Some h \<Rightarrow> h) in
      case sleep Throttle (rate_limit_delay m) w of
        (Inl e, w1) \<Rightarrow> (Inl e, w1)
      | (Inr u, w1) \<Rightarrow>
          (case send method url payload headers w1 of
             (Inl e, w2) \<Rightarrow> (Inl e, w2)
           | (Inr (Response r), w2) \<Rightarrow>
               if status_code r = 429 \<and> int retry_count < max_retries m then
                 (case sleep Backoff (2 ^ retry_count * rate_limit_delay m) w2 of
                    (Inl e, w3) \<Rightarrow> (Inl e, w3)
                  | (Inr u, w3) \<Rightarrow>
                      call_api_with_retry m method url payload (Some headers) (Suc retry_count) w3)
               else (Inr (result_of r), w2)
           | (Inr (RequestException msg), w2) \<Rightarrow>
               if int retry_count < max_retries m then
                 (case sleep Backoff (2 ^ retry_count * rate_limit_delay m) w2 of
                    (Inl e, w3) \<Rightarrow> (Inl e, w3)
                  | (Inr u, w3) \<Rightarrow>
                      call_api_with_retry m method url payload (Some headers) (Suc retry_count) w3)
               else (Inr (JNull, 0, msg), w2)))"
  by pat_completeness auto
termination
  by (relation "measure (\<lambda>(m, method, url, payload, hdrs, retry_count, w).
                   nat (max_retries m - int retry_count))") auto

section \<open>Authentication\<close>

text \<open>\<open>needle in haystack\<close> on two strings: the needle occurs as a contiguous part.\<close>

fun starts_with :: "string \<Rightarrow> string \<Rightarrow> bool" where
  "starts_with [] s = True"
| "starts_with (c # cs) [] = False"
| "starts_with (c # cs) (d # ds) = (c = d \<and> starts_with cs ds)"

fun str_contains :: "string \<Rightarrow> string \<Rightarrow> bool" where
  "str_contains needle [] = (needle = [])"
| "str_contains needle (d # ds) = (starts_with needle (d # ds) \<or> str_contains needle ds)"

type_synonym 'a outcome = "(error + 'a) \<times> manager \<times> world"

text \<open>
  \<open>authenticate\<close>. The test \<open>not resp_json or "token" not in resp_json\<close> and the
  subscript \<open>resp_json["token"]\<close> are applied to whatever JSON value the provider sent:
  on an object they look the key up; on a non-empty array or string \<open>in\<close> is membership
  or containment and the subscript by a string raises \<open>TypeError\<close>; on a number or on
  \<open>true\<close> the \<open>in\<close> itself raises \<open>TypeError\<close>.
\<close>

definition authenticate :: "manager \<Rightarrow> world \<Rightarrow> json outcome" where
  "authenticate m w =
     (let url = gateway m @ ''/auth/vendor/'';
          body = JObj [(''clientId'', JStr (client_id m)), (''secret'', JStr (api_token m))]
      in case call_api_with_retry m ''POST'' url body (Some default_headers) 0 w of
           (Inl e, w1) \<Rightarrow> (Inl e, m, w1)
         | (Inr (resp_json, status, raw), w1) \<Rightarrow>
             if \<not> truthy resp_json then (Inl (Auth_Exception status raw), m, w1)
             else (case resp_json of
                     JObj kvs \<Rightarrow>
                       (case map_of kvs ''token'' of
                          None \<Rightarrow> (Inl (Auth_Exception status raw), m, w1)
                        | Some t \<Rightarrow> (Inr t, m\<lparr>bearer_token := t\<rparr>, w1))
                   | JArr xs \<Rightarrow>
                       if JStr ''token'' \<in> set xs then (Inl TypeError, m, w1)
                       else (Inl (Auth_Exception status raw), m, w1)
                   | JStr s \<Rightarrow>
                       if str_contains ''token'' s then (Inl TypeError, m, w1)
                       else (Inl (Auth_Exception status raw), m, w1)
                   | _ \<Rightarrow> (Inl TypeError, m, w1)))"

text \<open>The dictionary \<open>{**self.default_headers, "authorization": f"Bearer {self.bearer_token}"}\<close>.\<close>

definition bearer_headers :: "manager \<Rightarrow> headers" where
  "bearer_headers m = AList.update ''authorization'' (Bearer (bearer_token m)) default_headers"

definition auth_headers :: "manager \<Rightarrow> world \<Rightarrow> headers outcome" where
  "auth_headers m w =
     (if \<not> truthy (bearer_token m) then
        (case authenticate m w of
           (Inl e, m1, w1) \<Rightarrow> (Inl e, m1, w1)
         | (Inr t, m1, w1) \<Rightarrow> (Inr (bearer_headers m1), m1, w1))
      else (Inr (bearer_headers m), m, w))"

section \<open>Helpers\<close>

text \<open>
  \<open>_resolve_user_id_by_email\<close> returns the user id or \<open>None\<close>. \<open>resp_json.get("id")\<close> is
  \<open>None\<close> for a missing key; \<open>uid and self._looks_like_uuid(uid)\<close> applies the pattern to
  any truthy value, and \<open>re.match\<close> on a value that is not a string raises \<open>TypeError\<close>.
\<close>

definition email_url :: "manager \<Rightarrow> string \<Rightarrow> string" where
  "email_url m email =
     identity_base m @ ''/resources/users/v1/email?'' @ urlencode [(''email'', email)]"

definition resolve_user_id_by_email :: "manager \<Rightarrow> string \<Rightarrow> world \<Rightarrow> string option outcome" where
  "resolve_user_id_by_email m email w =
     (case auth_headers m w of
        (Inl e, m1, w1) \<Rightarrow> (Inl e, m1, w1)
      | (Inr headers, m1, w1) \<Rightarrow>
          (case call_api_with_retry m1 ''GET'' (email_url m1 email) JNull (Some headers) 0 w1 of
             (Inl e, w2) \<Rightarrow> (Inl e, m1, w2)
           | (Inr (resp_json, status, raw), w2) \<Rightarrow>
               (case resp_json of
                  JObj kvs \<Rightarrow>
                    if status = 200 then
                      (let uid = (case map_of kvs ''id'' of None \<Rightarrow> JNull | Some v \<Rightarrow> v) in
                       if truthy uid then
                         (case uid of
                            JStr s \<Rightarrow> if looks_like_uuid s then (Inr (Some s), m1, w2)
                                      else (Inr None, m1, w2)
                          | _ \<Rightarrow> (Inl TypeError, m1, w2))
                       else (Inr None, m1, w2))
                    else (Inr None, m1, w2)
                | _ \<Rightarrow> (Inr None, m1, w2))))"

definition ensure_user_id :: "manager \<Rightarrow> string \<Rightarrow> world \<Rightarrow> string option outcome" where
  "ensure_user_id m identifier w =
     (if looks_like_uuid identifier then (Inr (Some identifier), m, w)
      else resolve_user_id_by_email m identifier w)"

section \<open>Actions\<close>

definition lock_url :: "manager \<Rightarrow> string \<Rightarrow> string" where
  "lock_url m user_id = identity_base m @ ''/resources/users/v1/'' @ user_id @ ''/lock''"

definition lock_user :: "manager \<Rightarrow> string \<Rightarrow> world \<Rightarrow> bool outcome" where
  "lock_user m user_id w =
     (case auth_headers m w of
        (Inl e, m1, w1) \<Rightarrow> (Inl e, m1, w1)
      | (Inr headers, m1, w1) \<Rightarrow>
          (case call_api_with_retry m1 ''POST'' (lock_url m1 user_id) (JObj []) (Some headers) 0 w1 of
             (Inl e, w2) \<Rightarrow> (Inl e, m1, w2)
           | (Inr (resp_json, status, raw), w2) \<Rightarrow> (Inr (status \<in> {200, 204}), m1, w2)))"

definition delete_url :: "manager \<Rightarrow> string \<Rightarrow> string" where
  "delete_url m user_id = identity_base m @ ''/resources/users/v1/'' @ user_id"

text \<open>
  \<open>delete_user\<close> reads \<open>FRONTEGG_TENANT_ID\<close> from the environment when it is called,
  after the authorization headers are built.
\<close>

definition tenant_headers :: "world \<Rightarrow> headers \<Rightarrow> headers" where
  "tenant_headers w headers =
     (let tenant = strip (getenv w ''FRONTEGG_TENANT_ID'' [])
      in if tenant \<noteq> [] then AList.update ''frontegg-tenant-id'' (Str tenant) headers
         else headers)"

definition delete_user :: "manager \<Rightarrow> string \<Rightarrow> world \<Rightarrow> bool outcome" where
  "delete_user m user_id w =
     (case auth_headers m w of
        (Inl e, m1, w1) \<Rightarrow> (Inl e, m1, w1)
      | (Inr headers, m1, w1) \<Rightarrow>
          (case call_api_with_retry m1 ''DELETE'' (delete_url m1 user_id) JNull
                  (Some (tenant_headers w1 headers)) 0 w1 of
             (Inl e, w2) \<Rightarrow> (Inl e, m1, w2)
           | (Inr (resp_json, status, raw), w2) \<Rightarrow> (Inr (status \<in> {200, 204}), m1, w2)))"

section \<open>Runner\<close>

text \<open>
  An entry of \<open>processed\<close> or \<open>failed\<close> is a dictionary of strings, kept as the list of
  its items in the order the literal writes them.
\<close>

type_synonym record_dict = "(string \<times> string) list"

definition not_found_record :: "string \<Rightarrow> record_dict" where
  "not_found_record identifier = [(''identifier'', identifier), (''reason'', ''not_found'')]"

definition status_record :: "string \<Rightarrow> string \<Rightarrow> string \<Rightarrow> string \<Rightarrow> record_dict" where
  "status_record identifier user_id action status =
     [(''identifier'', identifier), (''userId'', user_id), (''action'', action), (''status'', status)]"

record report =
  r_success :: bool
  r_action :: string
  r_dry_run :: bool
  r_processed_count :: nat
  r_failed_count :: nat
  r_processed :: "record_dict list"
  r_failed :: "record_dict list"

text \<open>The dispatch on the action inside the loop body, in execute mode.\<close>

definition dispatch :: "manager \<Rightarrow> string \<Rightarrow> string \<Rightarrow> world \<Rightarrow> bool outcome" where
  "dispatch m action user_id w =
     (if action = ''lock'' then lock_user m user_id w
      else if action = ''delete'' then delete_user m user_id w
      else (Inl Invalid_action_ValueError, m, w))"

text \<open>
  The \<open>for\<close> loop of \<open>run\<close> over the identifiers still to do, with the two lists built so
  far. \<open>not user_id\<close> holds for \<open>None\<close> and for the empty string.
\<close>

fun run_loop ::
  "string \<Rightarrow> bool \<Rightarrow> string list \<Rightarrow> record_dict list \<Rightarrow> record_dict list \<Rightarrow> manager \<Rightarrow> world
     \<Rightarrow> (record_dict list \<times> record_dict list) outcome" where
  "run_loop action dry_run [] processed failed m w = (Inr (processed, failed), m, w)"
| "run_loop action dry_run (identifier # rest) processed failed m w =
     (case ensure_user_id m identifier w of
        (Inl e, m1, w1) \<Rightarrow> (Inl e, m1, w1)
      | (Inr None, m1, w1) \<Rightarrow>
          run_loop action dry_run rest processed (failed @ [not_found_record identifier]) m1 w1
      | (Inr (Some user_id), m1, w1) \<Rightarrow>
          if user_id = [] then
            run_loop action dry_run rest processed (failed @ [not_found_record identifier]) m1 w1
          else if dry_run then
            run_loop action dry_run rest
              (processed @ [status_record identifier user_id action ''dry_run'']) failed m1 w1
          else
            (case dispatch m1 action user_id w1 of
               (Inl e, m2, w2) \<Rightarrow> (Inl e, m2, w2)
             | (Inr ok, m2, w2) \<Rightarrow>
                 if ok then
                   run_loop action dry_run rest
                     (processed @ [status_record identifier user_id action ''success'']) failed m2 w2
                 else
                   run_loop action dry_run rest processed
                     (failed @ [status_record identifier user_id action ''failed'']) m2 w2))"

text \<open>
  \<open>run\<close>. The module-level list \<open>USER_IDS_OR_EMAILS\<close> is the argument
  \<open>user_ids_or_emails\<close>.
\<close>

definition run :: "string list \<Rightarrow> manager \<Rightarrow> string \<Rightarrow> bool \<Rightarrow> world \<Rightarrow> report outcome" where
  "run user_ids_or_emails m action dry_run w =
     (if user_ids_or_emails = [] then (Inl Empty_list_ValueError, m, w)
      else
        (case auth_headers m w of
           (Inl e, m1, w1) \<Rightarrow> (Inl e, m1, w1)
         | (Inr headers, m1, w1) \<Rightarrow>
             (case run_loop action dry_run user_ids_or_emails [] [] m1 w1 of
                (Inl e, m2, w2) \<Rightarrow> (Inl e, m2, w2)
              | (Inr (processed, failed), m2, w2) \<Rightarrow>
                  (Inr \<lparr>r_success = (length failed = 0),
                        r_action = action,
                        r_dry_run = dry_run,
                        r_processed_count = length processed,
                        r_failed_count = length failed,
                        r_processed = processed,
                        r_failed = failed\<rparr>, m2, w2))))"

section \<open>Entry point\<close>

text \<open>
  \<open>main\<close>, up to the call of \<open>run\<close> (what follows only prints). \<open>args_action\<close> and
  \<open>args_execute\<close> are the parsed command line; \<open>USER_ACTION_ENV\<close> and the identifier list
  are the module-level values; \<open>delay\<close> and \<open>retries\<close> are the numbers the constructor
  parses. The action is checked against \<open>{"lock", "delete"}\<close> before the manager is built.
\<close>

definition main ::
  "string option \<Rightarrow> bool \<Rightarrow> string \<Rightarrow> string list \<Rightarrow> rat \<Rightarrow> int \<Rightarrow> world
     \<Rightarrow> (error + report) \<times> world" where
  "main args_action args_execute USER_ACTION_ENV user_ids_or_emails delay retries w =
     (let action = lower (strip (case args_action of
                                   None \<Rightarrow> USER_ACTION_ENV
                                 | Some a \<Rightarrow> if a = [] then USER_ACTION_ENV else a))
      in if action \<noteq> ''lock'' \<and> action \<noteq> ''delete'' then (Inl (SystemExit 2), w)
         else (case init delay retries w of
                 Inl e \<Rightarrow> (Inl e, w)
               | Inr manager \<Rightarrow>
                   (case run user_ids_or_emails manager action (\<not> args_execute) w of
                      (res, m', w') \<Rightarrow> (res, w'))))"

section \<open>Auxiliary notions for the statements\<close>

definition the_headers :: "headers option \<Rightarrow> headers" where
  "the_headers hdrs = (case hdrs of None \<Rightarrow> default_headers | Some h \<Rightarrow> h)"

definition valid_method :: "string \<Rightarrow> bool" where
  "valid_method method = (method = ''GET'' \<or> method = ''POST'' \<or> method = ''DELETE'')"

definition after_attempt :: "manager \<Rightarrow> request \<Rightarrow> world \<Rightarrow> world" where
  "after_attempt m req w =
     w\<lparr>sent := sent w @ [req], slept := slept w @ [(Throttle, rate_limit_delay m)]\<rparr>"

definition after_backoff :: "manager \<Rightarrow> nat \<Rightarrow> world \<Rightarrow> world" where
  "after_backoff m rc w = w\<lparr>slept := slept w @ [(Backoff, 2 ^ rc * rate_limit_delay m)]\<rparr>"

text \<open>The requests sent and the durations slept at one place between two worlds.\<close>

definition new_sent :: "world \<Rightarrow> world \<Rightarrow> request list" where
  "new_sent w w' = drop (length (sent w)) (sent w')"

definition waits :: "sleep_site \<Rightarrow> world \<Rightarrow> world \<Rightarrow> rat list" where
  "waits site w w' = map snd (filter (\<lambda>s. fst s = site) (drop (length (slept w)) (slept w')))"

text \<open>Every duration slept between two worlds, whatever the place.\<close>

definition slept_since :: "world \<Rightarrow> world \<Rightarrow> rat list" where
  "slept_since w w' = map snd (drop (length (slept w)) (slept w'))"

text \<open>
  What one call leaves behind: the environment and the provider are untouched, the
  requests sent are copies of one request, at most one more than the retries left, and
  the only errors are those of \<open>time.sleep\<close> and of an unsupported method.
\<close>

definition call_effect ::
  "manager \<Rightarrow> request \<Rightarrow> nat \<Rightarrow> world \<Rightarrow> (error + api_result) \<times> world \<Rightarrow> bool" where
  "call_effect m req rc w out =
     (environ (snd out) = environ w \<and> server (snd out) = server w \<and>
      (\<exists>k. sent (snd out) = sent w @ replicate k req \<and> k \<le> Suc (nat (max_retries m - int rc)) \<and>
           (\<forall>x. fst out = Inr x \<longrightarrow> 0 < k)) \<and>
      (\<exists>zs. slept (snd out) = slept w @ zs) \<and>
      (\<forall>e. fst out = Inl e \<longrightarrow> e = Sleep_ValueError \<or> e = Unsupported_method (req_method req)))"

text \<open>The sleeps of a call that is retried \<open>n\<close> times from retry count \<open>rc\<close>.\<close>

fun schedule :: "rat \<Rightarrow> nat \<Rightarrow> nat \<Rightarrow> (sleep_site \<times> rat) list" where
  "schedule d rc 0 = [(Throttle, d)]"
| "schedule d rc (Suc n) = (Throttle, d) # (Backoff, 2 ^ rc * d) # schedule d (Suc rc) n"

text \<open>
  The provider answers HTTP 429 to the request, once \<open>i\<close> copies of it have been sent
  after the requests of the world.
\<close>

definition answers_429 :: "world \<Rightarrow> request \<Rightarrow> nat \<Rightarrow> bool" where
  "answers_429 w req i =
     (case server w (sent w @ replicate i req) req of
        Response r \<Rightarrow> status_code r = 429
      | RequestException msg \<Rightarrow> False)"

text \<open>The identifier a record of the report is about.\<close>

definition identifier_of :: "record_dict \<Rightarrow> string option" where
  "identifier_of rec = map_of rec ''identifier''"

text \<open>The request \<open>authenticate\<close> sends.\<close>

definition auth_request :: "manager \<Rightarrow> request" where
  "auth_request m =
     mk_request ''POST'' (gateway m @ ''/auth/vendor/'')
       (JObj [(''clientId'', JStr (client_id m)), (''secret'', JStr (api_token m))]) default_headers"

text \<open>
  What an operation of the manager leaves behind: the environment and the provider are
  untouched, of the manager only the cached token may differ, and the requests sent
  since all satisfy \<open>P\<close>.
\<close>

definition steps :: "(request \<Rightarrow> bool) \<Rightarrow> manager \<Rightarrow> world \<Rightarrow> manager \<Rightarrow> world \<Rightarrow> bool" where
  "steps P m w m' w' =
     (environ w' = environ w \<and> server w' = server w \<and>
      m' = m\<lparr>bearer_token := bearer_token m'\<rparr> \<and>
      length (sent w) \<le> length (sent w') \<and> take (length (sent w)) (sent w') = sent w \<and>
      list_all P (new_sent w w'))"

text \<open>The exceptions that come from the HTTP client and from the provider's answers.\<close>

fun client_error :: "error \<Rightarrow> bool" where
  "client_error Sleep_ValueError = True"
| "client_error (Unsupported_method s) = True"
| "client_error (Auth_Exception s raw) = True"
| "client_error TypeError = True"
| "client_error e = False"

text \<open>
  The identifiers with what \<open>_ensure_user_id\<close> returns for each, when they are resolved
  one after the other and nothing else is done in between, up to the first that raises.
\<close>

fun resolutions :: "string list \<Rightarrow> manager \<Rightarrow> world \<Rightarrow> (string \<times> string option) list" where
  "resolutions [] m w = []"
| "resolutions (i # rest) m w =
     (case ensure_user_id m i w of
        (Inl e, m1, w1) \<Rightarrow> []
      | (Inr u, m1, w1) \<Rightarrow> (i, u) # resolutions rest m1 w1)"

text \<open>
  What happens to each identifier when the loop of \<open>run\<close> goes through the list, up to the
  first that raises: \<open>_ensure_user_id\<close> returns no user id; or it returns one and the run is
  a dry run; or it returns one and the action is carried out, with the boolean that
  \<open>lock_user\<close> or \<open>delete_user\<close> returns. The manager and the world are threaded as the
  loop threads them.
\<close>

datatype item_outcome = Not_resolved | Resolved string | Acted string bool

fun outcomes :: "string \<Rightarrow> bool \<Rightarrow> string list \<Rightarrow> manager \<Rightarrow> world \<Rightarrow> (string \<times> item_outcome) list" where
  "outcomes action dry [] m w = []"
| "outcomes action dry (i # rest) m w =
     (case ensure_user_id m i w of
        (Inl e, m1, w1) \<Rightarrow> []
      | (Inr None, m1, w1) \<Rightarrow> (i, Not_resolved) # outcomes action dry rest m1 w1
      | (Inr (Some uid), m1, w1) \<Rightarrow>
          if uid = [] then (i, Not_resolved) # outcomes action dry rest m1 w1
          else if dry then (i, Resolved uid) # outcomes action dry rest m1 w1
          else (case dispatch m1 action uid w1 of
                  (Inl e, m2, w2) \<Rightarrow> []
                | (Inr ok, m2, w2) \<Rightarrow> (i, Acted uid ok) # outcomes action dry rest m2 w2))"

text \<open>
  Modelled after the specification's words for the email lookup: a 200 answer whose body
  is a JSON object with an \<open>id\<close> field that matches the UUID pattern yields that id, and
  every other answer yields none. It is compared with \<open>_resolve_user_id_by_email\<close>.
\<close>

definition lookup_spec :: "json \<Rightarrow> int \<Rightarrow> string option" where
  "lookup_spec j s =
     (case j of
        JObj kvs \<Rightarrow>
          (case map_of kvs ''id'' of
             Some (JStr uid) \<Rightarrow> if s = 200 \<and> looks_like_uuid uid then Some uid else None
           | _ \<Rightarrow> None)
      | _ \<Rightarrow> None)"

text \<open>A 200 answer whose \<open>id\<close> field is a truthy JSON value that is not a string.\<close>

definition non_string_id :: "json \<Rightarrow> int \<Rightarrow> bool" where
  "non_string_id j s =
     (s = 200 \<and>
      (case j of
         JObj kvs \<Rightarrow>
           (case map_of kvs ''id'' of
              None \<Rightarrow> False
            | Some (JStr uid) \<Rightarrow> False
            | Some v \<Rightarrow> truthy v)
       | _ \<Rightarrow> False))"

section \<open>Example configurations\<close>

definition example_manager :: manager where
  "example_manager =
     \<lparr>client_id = ''cid'', api_token = ''secret'', tenant_id = [], region = EU,
      rate_limit_delay = 1 / 2, max_retries = 3, bearer_token = JNull\<rparr>"

definition json_response :: "int \<Rightarrow> json \<Rightarrow> response" where
  "json_response s j = \<lparr>status_code = s, body_text = ''(json)'', body_json = Some j\<rparr>"

definition plain_response :: "int \<Rightarrow> string \<Rightarrow> response" where
  "plain_response s t = \<lparr>status_code = s, body_text = t, body_json = None\<rparr>"

text \<open>
  A provider that issues the token \<open>tok\<close>, knows one user by email, locks with 200 and
  deletes with 204.
\<close>

definition example_provider :: "request list \<Rightarrow> request \<Rightarrow> attempt" where
  "example_provider before r =
     (if req_method r = ''POST'' \<and> req_url r = ''https://api.frontegg.com/auth/vendor/''
        then Response (json_response 200 (JObj [(''token'', JStr ''tok'')]))
      else if req_method r = ''GET''
        then (if req_url r =
                   ''https://api.frontegg.com/identity/resources/users/v1/email?email=user%40example.com''
              then Response (json_response 200
                     (JObj [(''id'', JStr ''22222222-2222-4222-9222-222222222222'')]))
              else Response (plain_response 404 ''not found''))
      else if req_method r = ''POST'' then Response (json_response 200 (JObj []))
      else Response (plain_response 204 []))"

definition example_world :: world where
  "example_world = \<lparr>environ = Map.empty, server = example_provider, sent = [], slept = []\<rparr>"

text \<open>A provider that answers 429 to the first \<open>n\<close> requests and 200 afterwards.\<close>

definition throttling_provider :: "nat \<Rightarrow> request list \<Rightarrow> request \<Rightarrow> attempt" where
  "throttling_provider n before r =
     (if length before < n then Response (plain_response 429 ''slow down'')
      else Response (json_response 200 (JObj [(''id'', JStr ''22222222-2222-4222-9222-222222222222'')])))"

definition throttled_world :: "nat \<Rightarrow> world" where
  "throttled_world n = \<lparr>environ = Map.empty, server = throttling_provider n, sent = [], slept = []\<rparr>"

text \<open>The manager once the token \<open>tok\<close> is cached.\<close>

definition authenticated_manager :: manager where
  "authenticated_manager = example_manager\<lparr>bearer_token := JStr ''tok''\<rparr>"

text \<open>A provider that answers 401 to everything.\<close>

definition rejecting_provider :: "request list \<Rightarrow> request \<Rightarrow> attempt" where
  "rejecting_provider before r = Response (plain_response 401 ''unauthorized'')"

definition rejecting_world :: world where
  "rejecting_world = \<lparr>environ = Map.empty, server = rejecting_provider, sent = [], slept = []\<rparr>"

text \<open>A provider like the first, except that the token it issues is the empty string.\<close>

definition empty_token_provider :: "request list \<Rightarrow> request \<Rightarrow> attempt" where
  "empty_token_provider before r =
     (if req_method r = ''POST'' \<and> req_url r = ''https://api.frontegg.com/auth/vendor/''
        then Response (json_response 200 (JObj [(''token'', JStr [])]))
      else example_provider before r)"

definition empty_token_world :: world where
  "empty_token_world = \<lparr>environ = Map.empty, server = empty_token_provider, sent = [], slept = []\<rparr>"

text \<open>The environment with a tenant identifier.\<close>

definition tenant_world :: "string \<Rightarrow> world" where
  "tenant_world t = example_world\<lparr>environ := [''FRONTEGG_TENANT_ID'' \<mapsto> t]\<rparr>"

section \<open>Properties of the retrying client\<close>

declare call_api_with_retry.simps [simp del]

lemma the_headers_simps [simp]:
  "the_headers None = default_headers" "the_headers (Some h) = h"
  by (simp_all add: the_headers_def)

lemma sleep_nonneg: "0 \<le> d \<Longrightarrow> sleep site d w = (Inr (), w\<lparr>slept := slept w @ [(site, d)]\<rparr>)"
  by (simp add: sleep_def)

lemma sleep_neg: "d < 0 \<Longrightarrow> sleep site d w = (Inl Sleep_ValueError, w)"
  by (simp add: sleep_def)

lemma send_valid:
  "valid_method method \<Longrightarrow>
   send method url payload hdrs w =
     (Inr (server w (sent w) (mk_request method url payload hdrs)),
      w\<lparr>sent := sent w @ [mk_request method url payload hdrs]\<rparr>)"
  unfolding send_def valid_method_def perform_def by simp

lemma send_invalid:
  "\<not> valid_method method \<Longrightarrow> send method url payload hdrs w = (Inl (Unsupported_method method), w)"
  unfolding send_def valid_method_def by simp

lemma backoff_nonneg: "0 \<le> (d::rat) \<Longrightarrow> 0 \<le> 2 ^ n * d"
  by simp

lemma call_api_unfold:
  "call_api_with_retry m method url payload hdrs rc w =
     (if rate_limit_delay m < 0 then (Inl Sleep_ValueError, w)
      else if \<not> valid_method method
        then (Inl (Unsupported_method method), w\<lparr>slept := slept w @ [(Throttle, rate_limit_delay m)]\<rparr>)
      else
        (case server w (sent w) (mk_request method url payload (the_headers hdrs)) of
           Response r \<Rightarrow>
             if status_code r = 429 \<and> int rc < max_retries m
             then call_api_with_retry m method url payload (Some (the_headers hdrs)) (Suc rc)
                    (after_backoff m rc (after_attempt m (mk_request method url payload (the_headers hdrs)) w))
             else (Inr (result_of r), after_attempt m (mk_request method url payload (the_headers hdrs)) w)
         | RequestException msg \<Rightarrow>
             if int rc < max_retries m
             then call_api_with_retry m method url payload (Some (the_headers hdrs)) (Suc rc)
                    (after_backoff m rc (after_attempt m (mk_request method url payload (the_headers hdrs)) w))
             else (Inr (JNull, 0, msg), after_attempt m (mk_request method url payload (the_headers hdrs)) w)))"
proof (cases "rate_limit_delay m < 0")
  case True
  then show ?thesis
    by (subst call_api_with_retry.simps) (simp add: Let_def sleep_neg)
next
  case d: False
  then have d0: "0 \<le> rate_limit_delay m" by simp
  have h: "(case hdrs of None \<Rightarrow> default_headers | Some h \<Rightarrow> h) = the_headers hdrs"
    by (simp add: the_headers_def)
  show ?thesis
  proof (cases "valid_method method")
    case False
    then show ?thesis using d
      by (subst call_api_with_retry.simps) (simp add: Let_def sleep_nonneg[OF d0] send_invalid h)
  next
    case vm: True
    show ?thesis
    proof (cases "server w (sent w) (mk_request method url payload (the_headers hdrs))")
      case (Response r)
      then show ?thesis using d vm
        by (subst call_api_with_retry.simps)
           (simp add: Let_def sleep_nonneg[OF d0] sleep_nonneg[OF backoff_nonneg[OF d0]] send_valid h
                      after_attempt_def after_backoff_def)
    next
      case (RequestException msg)
      then show ?thesis using d vm
        by (subst call_api_with_retry.simps)
           (simp add: Let_def sleep_nonneg[OF d0] sleep_nonneg[OF backoff_nonneg[OF d0]] send_valid h
                      after_attempt_def after_backoff_def)
    qed
  qed
qed

lemma after_simps [simp]:
  "sent (after_attempt m req w) = sent w @ [req]"
  "slept (after_attempt m req w) = slept w @ [(Throttle, rate_limit_delay m)]"
  "server (after_attempt m req w) = server w"
  "environ (after_attempt m req w) = environ w"
  "sent (after_backoff m rc w) = sent w"
  "slept (after_backoff m rc w) = slept w @ [(Backoff, 2 ^ rc * rate_limit_delay m)]"
  "server (after_backoff m rc w) = server w"
  "environ (after_backoff m rc w) = environ w"
  by (simp_all add: after_attempt_def after_backoff_def)

lemma call_api_induct:
  assumes "\<And>rc w h. (\<And>w2 h2. int rc < max_retries m \<Longrightarrow> P (Suc rc) w2 h2) \<Longrightarrow> P rc w h"
  shows "P rc w h"
proof (induction "nat (max_retries m - int rc)" arbitrary: rc w h)
  case 0
  show ?case
  proof (rule assms)
    fix w2 h2 assume "int rc < max_retries m"
    with 0 show "P (Suc rc) w2 h2" by simp
  qed
next
  case (Suc n)
  show ?case
  proof (rule assms)
    fix w2 h2 assume "int rc < max_retries m"
    with Suc.hyps(2) have "n = nat (max_retries m - int (Suc rc))" by simp
    then show "P (Suc rc) w2 h2" by (rule Suc.hyps(1))
  qed
qed

lemma call_effect_now:
  "call_effect m req rc w (Inr x, after_attempt m req w)"
  unfolding call_effect_def
proof (intro conjI)
  show "\<exists>k. sent (snd (Inr x, after_attempt m req w)) = sent w @ replicate k req \<and>
          k \<le> Suc (nat (max_retries m - int rc)) \<and>
          (\<forall>y. fst (Inr x :: error + api_result, after_attempt m req w) = Inr y \<longrightarrow> 0 < k)"
    by (rule exI[of _ "Suc 0"]) simp
  show "\<exists>zs. slept (snd (Inr x, after_attempt m req w)) = slept w @ zs"
    by simp
qed simp_all

lemma call_effect_step:
  assumes "call_effect m req (Suc rc) (after_backoff m rc (after_attempt m req w)) out"
    and "int rc < max_retries m"
  shows "call_effect m req rc w out"
proof -
  from assms(1) have env: "environ (snd out) = environ w" and srv: "server (snd out) = server w"
    and err: "\<forall>e. fst out = Inl e \<longrightarrow> e = Sleep_ValueError \<or> e = Unsupported_method (req_method req)"
    and ex1: "\<exists>k. sent (snd out) = (sent w @ [req]) @ replicate k req \<and>
                 k \<le> Suc (nat (max_retries m - int (Suc rc))) \<and> (\<forall>x. fst out = Inr x \<longrightarrow> 0 < k)"
    and ex2: "\<exists>zs. slept (snd out) =
                 ((slept w @ [(Throttle, rate_limit_delay m)]) @ [(Backoff, 2 ^ rc * rate_limit_delay m)]) @ zs"
    unfolding call_effect_def by simp_all
  from ex1 obtain k where k: "sent (snd out) = (sent w @ [req]) @ replicate k req"
       "k \<le> Suc (nat (max_retries m - int (Suc rc)))" by blast
  from ex2 obtain zs where zs: "slept (snd out) =
       ((slept w @ [(Throttle, rate_limit_delay m)]) @ [(Backoff, 2 ^ rc * rate_limit_delay m)]) @ zs" by blast
  have s: "sent (snd out) = sent w @ replicate (Suc k) req"
    using k(1) by (simp add: replicate_app_Cons_same)
  have b: "Suc k \<le> Suc (nat (max_retries m - int rc))"
    using k(2) assms(2) by simp
  have e1: "\<exists>k. sent (snd out) = sent w @ replicate k req \<and> k \<le> Suc (nat (max_retries m - int rc)) \<and>
           (\<forall>x. fst out = Inr x \<longrightarrow> 0 < k)"
    by (rule exI[of _ "Suc k"]) (use s b in simp)
  have e2: "\<exists>zs'. slept (snd out) = slept w @ zs'"
    by (rule exI[of _ "[(Throttle, rate_limit_delay m), (Backoff, 2 ^ rc * rate_limit_delay m)] @ zs"])
       (use zs in simp)
  show ?thesis
    unfolding call_effect_def using env srv err e1 e2 by (intro conjI)
qed

lemma mk_request_method [simp]: "req_method (mk_request method url payload hdrs) = method"
  by (simp add: mk_request_def)

lemma call_api_effect:
  "call_effect m (mk_request method url payload (the_headers hdrs)) rc w
     (call_api_with_retry m method url payload hdrs rc w)"
proof (induction rc w hdrs rule: call_api_induct[where m=m])
  case (1 rc w h)
  let ?req = "mk_request method url payload (the_headers h)"
  let ?w' = "after_backoff m rc (after_attempt m ?req w)"
  have ih: "call_effect m ?req rc w (call_api_with_retry m method url payload (Some (the_headers h)) (Suc rc) ?w')"
    if lt: "int rc < max_retries m"
  proof -
    have "call_effect m (mk_request method url payload (the_headers (Some (the_headers h)))) (Suc rc) ?w'
            (call_api_with_retry m method url payload (Some (the_headers h)) (Suc rc) ?w')"
      using lt by (rule "1.IH")
    then have "call_effect m ?req (Suc rc) ?w'
            (call_api_with_retry m method url payload (Some (the_headers h)) (Suc rc) ?w')"
      by simp
    then show ?thesis using lt by (rule call_effect_step)
  qed
  show ?case
  proof (cases "rate_limit_delay m < 0")
    case True
    then show ?thesis
      by (subst call_api_unfold) (simp add: call_effect_def)
  next
    case d: False
    show ?thesis
    proof (cases "valid_method method")
      case False
      then show ?thesis using d
        by (subst call_api_unfold) (simp add: call_effect_def)
    next
      case vm: True
      show ?thesis
      proof (cases "server w (sent w) ?req")
        case (Response r)
        show ?thesis
        proof (cases "status_code r = 429 \<and> int rc < max_retries m")
          case True
          then have "call_api_with_retry m method url payload h rc w =
                     call_api_with_retry m method url payload (Some (the_headers h)) (Suc rc) ?w'"
            using d vm Response by (subst call_api_unfold) simp
          then show ?thesis using ih True by simp
        next
          case False
          then have "call_api_with_retry m method url payload h rc w = (Inr (result_of r), after_attempt m ?req w)"
            using d vm Response by (subst call_api_unfold) auto
          then show ?thesis by (simp add: call_effect_now)
        qed
      next
        case (RequestException msg)
        show ?thesis
        proof (cases "int rc < max_retries m")
          case True
          then have "call_api_with_retry m method url payload h rc w =
                     call_api_with_retry m method url payload (Some (the_headers h)) (Suc rc) ?w'"
            using d vm RequestException by (subst call_api_unfold) simp
          then show ?thesis using ih True by simp
        next
          case False
          then have "call_api_with_retry m method url payload h rc w = (Inr (JNull, 0, msg), after_attempt m ?req w)"
            using d vm RequestException by (subst call_api_unfold) simp
          then show ?thesis by (simp add: call_effect_now)
        qed
      qed
    qed
  qed
qed

lemma answers_429_0:
  "answers_429 w req 0 \<Longrightarrow> \<exists>r. server w (sent w) req = Response r \<and> status_code r = 429"
  by (auto simp add: answers_429_def split: attempt.splits)

lemma answers_429_Suc:
  "answers_429 w req (Suc i) \<Longrightarrow> answers_429 (after_backoff m rc (after_attempt m req w)) req i"
  by (simp add: answers_429_def replicate_app_Cons_same)

lemma schedule_backoff:
  "map snd (filter (\<lambda>s. fst s = Backoff) (schedule d rc n)) = map (\<lambda>i. 2 ^ (rc + i) * d) [0..<n]"
proof (induction n arbitrary: rc)
  case 0 show ?case by simp
next
  case (Suc n)
  have "map (\<lambda>i. 2 ^ (rc + i) * d) [0..<Suc n] = 2 ^ rc * d # map (\<lambda>i. 2 ^ (Suc rc + i) * d) [0..<n]"
    by (simp add: upt_conv_Cons map_Suc_upt[symmetric] del: upt_Suc)
  then show ?case using Suc.IH[of "Suc rc"] by simp
qed

lemma schedule_throttle:
  "map snd (filter (\<lambda>s. fst s = Throttle) (schedule d rc n)) = replicate (Suc n) d"
  by (induction n arbitrary: rc) simp_all

lemma schedule_total:
  "sum_list (map snd (schedule d rc n)) =
     sum_list (map (\<lambda>i. 2 ^ (rc + i) * d) [0..<n]) + of_nat (Suc n) * d"
proof (induction n arbitrary: rc)
  case 0
  show ?case by simp
next
  case (Suc n)
  have "map (\<lambda>i. 2 ^ (rc + i) * d) [0..<Suc n] = 2 ^ rc * d # map (\<lambda>i. 2 ^ (Suc rc + i) * d) [0..<n]"
    by (simp add: upt_conv_Cons map_Suc_upt[symmetric] del: upt_Suc)
  then have "sum_list (map (\<lambda>i. 2 ^ (rc + i) * d) [0..<Suc n]) =
      2 ^ rc * d + sum_list (map (\<lambda>i. 2 ^ (Suc rc + i) * d) [0..<n])"
    by simp
  moreover have "sum_list (map snd (schedule d rc (Suc n))) =
      d + 2 ^ rc * d + sum_list (map snd (schedule d (Suc rc) n))"
    by simp
  ultimately show ?case
    unfolding Suc.IH[of "Suc rc"] by (simp add: algebra_simps)
qed

lemma sum_list_upt: "sum_list (map f [0..<n]) = (\<Sum>i<n. f i)"
  by (induction n) simp_all

text \<open>
  A call whose first \<open>n\<close> attempts are answered 429 with retries left, and whose next
  attempt is answered by a response that is not retried.
\<close>

lemma retried_then_answered:
  assumes d: "0 \<le> rate_limit_delay m" and vm: "valid_method method"
  shows "n = 0 \<or> int rc + int n \<le> max_retries m \<Longrightarrow>
     \<forall>i<n. answers_429 w (mk_request method url payload (the_headers hdrs)) i \<Longrightarrow>
     server w (sent w @ replicate n (mk_request method url payload (the_headers hdrs)))
        (mk_request method url payload (the_headers hdrs)) = Response r \<Longrightarrow>
     status_code r \<noteq> 429 \<or> max_retries m \<le> int rc + int n \<Longrightarrow>
     call_api_with_retry m method url payload hdrs rc w =
       (Inr (result_of r),
        w\<lparr>sent := sent w @ replicate (Suc n) (mk_request method url payload (the_headers hdrs)),
          slept := slept w @ schedule (rate_limit_delay m) rc n\<rparr>)"
proof (induction n arbitrary: rc w hdrs)
  case 0
  then have c: "(status_code r = 429 \<and> int rc < max_retries m) = False" by auto
  from 0 have s: "server w (sent w) (mk_request method url payload (the_headers hdrs)) = Response r"
    by simp
  show ?case
    using d vm by (subst call_api_unfold) (simp add: s c after_attempt_def)
next
  case (Suc n)
  let ?req = "mk_request method url payload (the_headers hdrs)"
  let ?w1 = "after_backoff m rc (after_attempt m ?req w)"
  have "answers_429 w ?req 0" using Suc.prems(2) by blast
  then obtain r' where first: "server w (sent w) ?req = Response r'" "status_code r' = 429"
    using answers_429_0 by blast
  have le: "n = 0 \<or> int (Suc rc) + int n \<le> max_retries m" using Suc.prems(1) by simp
  have lt: "int rc < max_retries m" using Suc.prems(1) by simp
  have hs: "the_headers (Some (the_headers hdrs)) = the_headers hdrs" by simp
  have nxt: "\<forall>i<n. answers_429 ?w1 (mk_request method url payload (the_headers (Some (the_headers hdrs)))) i"
    unfolding hs using Suc.prems(2) answers_429_Suc by auto
  have lst: "server ?w1 (sent ?w1 @ replicate n (mk_request method url payload (the_headers (Some (the_headers hdrs)))))
        (mk_request method url payload (the_headers (Some (the_headers hdrs)))) = Response r"
    using Suc.prems(3) unfolding hs by (simp add: replicate_app_Cons_same)
  have fin: "status_code r \<noteq> 429 \<or> max_retries m \<le> int (Suc rc) + int n"
  proof (cases "status_code r = 429")
    case True
    with Suc.prems(4) have "max_retries m \<le> int rc + int (Suc n)" by blast
    then show ?thesis by simp
  next
    case False
    then show ?thesis by simp
  qed
  have "call_api_with_retry m method url payload hdrs rc w =
        call_api_with_retry m method url payload (Some (the_headers hdrs)) (Suc rc) ?w1"
    using d vm first lt by (subst call_api_unfold) simp
  also have "\<dots> = (Inr (result_of r),
        ?w1\<lparr>sent := sent ?w1 @ replicate (Suc n) (mk_request method url payload (the_headers (Some (the_headers hdrs)))),
          slept := slept ?w1 @ schedule (rate_limit_delay m) (Suc rc) n\<rparr>)"
    by (rule Suc.IH[OF le nxt lst fin])
  also have "\<dots> = (Inr (result_of r),
        w\<lparr>sent := sent w @ replicate (Suc (Suc n)) ?req,
          slept := slept w @ schedule (rate_limit_delay m) rc (Suc n)\<rparr>)"
    by (simp add: after_attempt_def after_backoff_def replicate_app_Cons_same)
  finally show ?case .
qed

section \<open>Properties of authentication and of the resolver\<close>

lemma call_api_returns:
  assumes d: "0 \<le> rate_limit_delay m" and vm: "valid_method meth"
  shows "\<exists>x. fst (call_api_with_retry m meth url payload hdrs rc w) = Inr x"
proof (induction rc w hdrs rule: call_api_induct[where m = m])
  case (1 rc w h)
  let ?req = "mk_request meth url payload (the_headers h)"
  let ?w' = "after_backoff m rc (after_attempt m ?req w)"
  have nd: "\<not> rate_limit_delay m < 0" using d by simp
  show ?case
  proof (cases "server w (sent w) ?req")
    case (Response r)
    show ?thesis
    proof (cases "status_code r = 429 \<and> int rc < max_retries m")
      case True
      then have "call_api_with_retry m meth url payload h rc w =
                 call_api_with_retry m meth url payload (Some (the_headers h)) (Suc rc) ?w'"
        using nd vm Response by (subst call_api_unfold) simp
      moreover have "\<exists>x. fst (call_api_with_retry m meth url payload (Some (the_headers h)) (Suc rc) ?w') = Inr x"
        using True by (intro "1.IH") simp
      ultimately show ?thesis by simp
    next
      case False
      then have "call_api_with_retry m meth url payload h rc w = (Inr (result_of r), after_attempt m ?req w)"
        using nd vm Response by (subst call_api_unfold) auto
      then have "fst (call_api_with_retry m meth url payload h rc w) = Inr (result_of r)" by simp
      then show ?thesis by blast
    qed
  next
    case (RequestException msg)
    show ?thesis
    proof (cases "int rc < max_retries m")
      case True
      then have "call_api_with_retry m meth url payload h rc w =
                 call_api_with_retry m meth url payload (Some (the_headers h)) (Suc rc) ?w'"
        using nd vm RequestException by (subst call_api_unfold) simp
      moreover have "\<exists>x. fst (call_api_with_retry m meth url payload (Some (the_headers h)) (Suc rc) ?w') = Inr x"
        using True by (intro "1.IH") simp
      ultimately show ?thesis by simp
    next
      case False
      then have "call_api_with_retry m meth url payload h rc w = (Inr (JNull, 0, msg), after_attempt m ?req w)"
        using nd vm RequestException by (subst call_api_unfold) simp
      then have "fst (call_api_with_retry m meth url payload h rc w) = Inr (JNull, 0, msg)" by simp
      then show ?thesis by blast
    qed
  qed
qed

lemma call_api_sends:
  assumes "fst (call_api_with_retry m meth url payload hdrs 0 w) = Inr x"
  shows "\<exists>k>0. int k \<le> max (max_retries m) 0 + 1 \<and>
           new_sent w (snd (call_api_with_retry m meth url payload hdrs 0 w)) =
             replicate k (mk_request meth url payload (the_headers hdrs))"
proof -
  let ?req = "mk_request meth url payload (the_headers hdrs)"
  let ?out = "call_api_with_retry m meth url payload hdrs 0 w"
  have "call_effect m ?req 0 w ?out" by (rule call_api_effect)
  then obtain k where k: "sent (snd ?out) = sent w @ replicate k ?req"
    "k \<le> Suc (nat (max_retries m - int 0))" "\<forall>x. fst ?out = Inr x \<longrightarrow> 0 < k"
    unfolding call_effect_def by blast
  have "0 < k" using k(3) assms by blast
  moreover have "int k \<le> max (max_retries m) 0 + 1" using k(2) by simp
  moreover have "new_sent w (snd ?out) = replicate k ?req"
    by (simp add: new_sent_def k(1))
  ultimately show ?thesis by blast
qed

lemma valid_method_simps [simp]:
  "valid_method ''GET''" "valid_method ''POST''" "valid_method ''DELETE''"
  by (simp_all add: valid_method_def)

lemma new_sent_same [simp]: "new_sent w w = []"
  by (simp add: new_sent_def)

lemma steps_refl [simp]: "steps P m w m w"
  by (simp add: steps_def)

lemma steps_trans:
  assumes "steps P m w m1 w1" and "steps P m1 w1 m2 w2"
  shows "steps P m w m2 w2"
proof -
  from assms(1) have a: "environ w1 = environ w" "server w1 = server w"
    "m1 = m\<lparr>bearer_token := bearer_token m1\<rparr>"
    "length (sent w) \<le> length (sent w1)" "take (length (sent w)) (sent w1) = sent w"
    "list_all P (new_sent w w1)"
    by (simp_all add: steps_def)
  from assms(2) have b: "environ w2 = environ w1" "server w2 = server w1"
    "m2 = m1\<lparr>bearer_token := bearer_token m2\<rparr>"
    "length (sent w1) \<le> length (sent w2)" "take (length (sent w1)) (sent w2) = sent w1"
    "list_all P (new_sent w1 w2)"
    by (simp_all add: steps_def)
  have s1: "sent w1 = sent w @ new_sent w w1"
    using a(5) unfolding new_sent_def by (metis append_take_drop_id)
  have s2: "sent w2 = sent w1 @ new_sent w1 w2"
    using b(5) unfolding new_sent_def by (metis append_take_drop_id)
  have s: "sent w2 = sent w @ (new_sent w w1 @ new_sent w1 w2)"
    using s1 s2 by simp
  have "drop (length (sent w)) (sent w2) = new_sent w w1 @ new_sent w1 w2"
    by (subst s) simp
  then have n: "new_sent w w2 = new_sent w w1 @ new_sent w1 w2"
    by (simp add: new_sent_def[of w w2])
  have t: "take (length (sent w)) (sent w2) = sent w"
    by (subst s) simp
  have m: "m2 = m\<lparr>bearer_token := bearer_token m2\<rparr>"
    by (subst b(3), subst a(3)) simp
  show ?thesis
    unfolding steps_def using a b n t m by simp
qed

lemma steps_mono:
  assumes "steps P m w m1 w1" and "\<And>r. P r \<Longrightarrow> Q r"
  shows "steps Q m w m1 w1"
proof -
  from assms(1) have "list_all P (new_sent w w1)" by (simp add: steps_def)
  then have "list_all Q (new_sent w w1)"
    using assms(2) by (simp add: list_all_iff)
  with assms(1) show ?thesis by (simp add: steps_def)
qed

lemma steps_sent:
  "steps P m w m1 w1 \<Longrightarrow> sent w1 = sent w @ new_sent w w1"
  unfolding steps_def new_sent_def by (metis append_take_drop_id)

lemma call_api_steps:
  "steps (\<lambda>r. r = mk_request meth url payload (the_headers hdrs)) m w m
     (snd (call_api_with_retry m meth url payload hdrs rc w))"
proof -
  let ?req = "mk_request meth url payload (the_headers hdrs)"
  let ?out = "call_api_with_retry m meth url payload hdrs rc w"
  have "call_effect m ?req rc w ?out" by (rule call_api_effect)
  then obtain k where e: "environ (snd ?out) = environ w" "server (snd ?out) = server w"
    "sent (snd ?out) = sent w @ replicate k ?req"
    unfolding call_effect_def by blast
  have "list_all (\<lambda>r. r = ?req) (new_sent w (snd ?out))"
    by (simp add: new_sent_def e(3) list_all_iff)
  then show ?thesis
    by (simp add: steps_def e)
qed

lemma call_api_error:
  "fst (call_api_with_retry m meth url payload hdrs rc w) = Inl e \<Longrightarrow>
   e = Sleep_ValueError \<or> e = Unsupported_method meth"
  using call_api_effect[of m meth url payload hdrs rc w]
  by (simp add: call_effect_def)


lemma steps_token: "steps P m w m w1 \<Longrightarrow> steps P m w (m\<lparr>bearer_token := t\<rparr>) w1"
  by (simp add: steps_def)

lemma config_simps [simp]:
  "gateway (m\<lparr>bearer_token := t\<rparr>) = gateway m"
  "identity_base (m\<lparr>bearer_token := t\<rparr>) = identity_base m"
  "auth_request (m\<lparr>bearer_token := t\<rparr>) = auth_request m"
  "email_url (m\<lparr>bearer_token := t\<rparr>) email = email_url m email"
  "lock_url (m\<lparr>bearer_token := t\<rparr>) uid = lock_url m uid"
  "delete_url (m\<lparr>bearer_token := t\<rparr>) uid = delete_url m uid"
  by (simp_all add: gateway_def identity_base_def auth_request_def email_url_def lock_url_def
        delete_url_def)

lemma authenticate_cases [case_names raise token]:
  obtains (raise) e w1 where "authenticate m w = (Inl e, m, w1)" "client_error e"
      "steps (\<lambda>r. r = auth_request m) m w m w1"
  | (token) t w1 where "authenticate m w = (Inr t, m\<lparr>bearer_token := t\<rparr>, w1)"
      "steps (\<lambda>r. r = auth_request m) m w m w1"
proof -
  let ?body = "JObj [(''clientId'', JStr (client_id m)), (''secret'', JStr (api_token m))]"
  let ?out = "call_api_with_retry m ''POST'' (gateway m @ ''/auth/vendor/'') ?body (Some default_headers) 0 w"
  obtain cr w1 where out: "?out = (cr, w1)" by (cases ?out) auto
  have st: "steps (\<lambda>r. r = auth_request m) m w m w1"
    using call_api_steps[where meth = "''POST''" and url = "gateway m @ ''/auth/vendor/''"
        and payload = ?body and hdrs = "Some default_headers" and m = m and rc = 0 and w = w]
    by (simp add: out auth_request_def)
  show ?thesis
  proof (cases cr)
    case (Inl e)
    have "e = Sleep_ValueError \<or> e = Unsupported_method ''POST''"
      by (rule call_api_error[where m = m and url = "gateway m @ ''/auth/vendor/''"
            and payload = ?body and hdrs = "Some default_headers" and rc = 0 and w = w])
         (simp add: out Inl)
    then have ce: "client_error e" by auto
    have "authenticate m w = (Inl e, m, w1)"
      by (simp add: authenticate_def out Inl)
    then show ?thesis using ce st by (rule raise)
  next
    case (Inr res)
    obtain j status raw where res: "res = (j, status, raw)" by (cases res) auto
    have a: "(\<exists>e. authenticate m w = (Inl e, m, w1) \<and> client_error e) \<or>
             (\<exists>t. authenticate m w = (Inr t, m\<lparr>bearer_token := t\<rparr>, w1))"
      by (cases j) (simp_all add: authenticate_def out Inr res split: option.splits)
    then show ?thesis using st raise token by blast
  qed
qed

lemma auth_headers_cached:
  "truthy (bearer_token m) \<Longrightarrow> auth_headers m w = (Inr (bearer_headers m), m, w)"
  by (simp add: auth_headers_def)

lemma auth_headers_cases [case_names raise headers]:
  obtains (raise) e w1 where "auth_headers m w = (Inl e, m, w1)" "client_error e"
      "steps (\<lambda>r. r = auth_request m) m w m w1"
  | (headers) m1 w1 where "auth_headers m w = (Inr (bearer_headers m1), m1, w1)"
      "steps (\<lambda>r. r = auth_request m) m w m1 w1"
proof (cases "truthy (bearer_token m)")
  case True
  have "auth_headers m w = (Inr (bearer_headers m), m, w)"
    using True by (rule auth_headers_cached)
  then show ?thesis by (rule headers) simp
next
  case False
  show ?thesis
  proof (cases rule: authenticate_cases[where m = m and w = w])
    case (raise e w1)
    have "auth_headers m w = (Inl e, m, w1)"
      using False raise(1) by (simp add: auth_headers_def)
    then show ?thesis using raise(2,3) by (rule that(1))
  next
    case (token t w1)
    have "auth_headers m w = (Inr (bearer_headers (m\<lparr>bearer_token := t\<rparr>)), m\<lparr>bearer_token := t\<rparr>, w1)"
      using False token(1) by (simp add: auth_headers_def)
    then show ?thesis using steps_token[OF token(2)] by (rule that(2))
  qed
qed


lemma steps_eq_token: "steps P m w m1 w1 \<Longrightarrow> m1 = m\<lparr>bearer_token := bearer_token m1\<rparr>"
  by (simp add: steps_def)

lemma resolve_cases [case_names raise answer]:
  obtains (raise) e m1 w1 where "resolve_user_id_by_email m email w = (Inl e, m1, w1)"
      "client_error e"
      "steps (\<lambda>r. r = auth_request m \<or> (req_method r = ''GET'' \<and> req_url r = email_url m email)) m w m1 w1"
  | (answer) u m1 w1 where "resolve_user_id_by_email m email w = (Inr u, m1, w1)"
      "\<forall>uid. u = Some uid \<longrightarrow> looks_like_uuid uid"
      "steps (\<lambda>r. r = auth_request m \<or> (req_method r = ''GET'' \<and> req_url r = email_url m email)) m w m1 w1"
proof (cases rule: auth_headers_cases[where m = m and w = w])
  case (raise e w1)
  have "resolve_user_id_by_email m email w = (Inl e, m, w1)"
    using raise(1) by (simp add: resolve_user_id_by_email_def)
  moreover have "steps (\<lambda>r. r = auth_request m \<or> (req_method r = ''GET'' \<and> req_url r = email_url m email)) m w m w1"
    using raise(3) by (rule steps_mono) simp
  ultimately show ?thesis using raise(2) that(1) by blast
next
  case (headers m1 w1)
  let ?P = "\<lambda>r. r = auth_request m \<or> (req_method r = ''GET'' \<and> req_url r = email_url m email)"
  let ?out = "call_api_with_retry m1 ''GET'' (email_url m1 email) JNull (Some (bearer_headers m1)) 0 w1"
  obtain cr w2 where out: "?out = (cr, w2)" by (cases ?out) auto
  have m1: "m1 = m\<lparr>bearer_token := bearer_token m1\<rparr>"
    using headers(2) by (rule steps_eq_token)
  have u: "email_url m1 email = email_url m email"
    by (subst m1) simp
  have "steps (\<lambda>r. r = mk_request ''GET'' (email_url m1 email) JNull (the_headers (Some (bearer_headers m1)))) m1 w1 m1 w2"
    using call_api_steps[where meth = "''GET''" and url = "email_url m1 email"
        and payload = JNull and hdrs = "Some (bearer_headers m1)" and m = m1 and rc = 0 and w = w1]
    by (simp add: out)
  then have s2: "steps ?P m1 w1 m1 w2"
    by (rule steps_mono) (simp add: mk_request_def u)
  have s1: "steps ?P m w m1 w1"
    using headers(2) by (rule steps_mono) simp
  have st: "steps ?P m w m1 w2"
    using s1 s2 by (rule steps_trans)
  show ?thesis
  proof (cases cr)
    case (Inl e)
    have "e = Sleep_ValueError \<or> e = Unsupported_method ''GET''"
      by (rule call_api_error[where m = m1 and url = "email_url m1 email"
            and payload = JNull and hdrs = "Some (bearer_headers m1)" and rc = 0 and w = w1])
         (simp add: out Inl)
    then have ce: "client_error e" by auto
    have "resolve_user_id_by_email m email w = (Inl e, m1, w2)"
      by (simp add: resolve_user_id_by_email_def headers(1) out Inl)
    then show ?thesis using ce st by (rule that(1))
  next
    case (Inr res)
    obtain j status raw where res: "res = (j, status, raw)" by (cases res) auto
    have a: "(\<exists>e. resolve_user_id_by_email m email w = (Inl e, m1, w2) \<and> client_error e) \<or>
             (\<exists>u. resolve_user_id_by_email m email w = (Inr u, m1, w2) \<and>
                  (\<forall>uid. u = Some uid \<longrightarrow> looks_like_uuid uid))"
    proof (cases j)
      case (JObj kvs)
      show ?thesis
      proof (cases "map_of kvs ''id''")
        case None
        then show ?thesis
          by (simp add: resolve_user_id_by_email_def headers(1) out Inr res JObj)
      next
        case (Some v)
        then show ?thesis
          by (cases v) (simp_all add: resolve_user_id_by_email_def headers(1) out Inr res JObj)
      qed
    qed (simp_all add: resolve_user_id_by_email_def headers(1) out Inr res)
    then show ?thesis using st that by blast
  qed
qed

lemma ensure_cases [case_names raise answer]:
  obtains (raise) e m1 w1 where "ensure_user_id m i w = (Inl e, m1, w1)"
      "client_error e"
      "steps (\<lambda>r. r = auth_request m \<or> (req_method r = ''GET'' \<and> req_url r = email_url m i)) m w m1 w1"
  | (answer) u m1 w1 where "ensure_user_id m i w = (Inr u, m1, w1)"
      "\<forall>uid. u = Some uid \<longrightarrow> looks_like_uuid uid"
      "steps (\<lambda>r. r = auth_request m \<or> (req_method r = ''GET'' \<and> req_url r = email_url m i)) m w m1 w1"
proof (cases "looks_like_uuid i")
  case True
  then have "ensure_user_id m i w = (Inr (Some i), m, w)"
    by (simp add: ensure_user_id_def)
  then show ?thesis using True by (intro that(2)[of "Some i" m w]) simp_all
next
  case False
  then have e: "ensure_user_id m i w = resolve_user_id_by_email m i w"
    by (simp add: ensure_user_id_def)
  show ?thesis
    by (cases rule: resolve_cases[where m = m and w = w and email = i])
       (use e that in auto)
qed

lemma not_looks_like_uuid_Nil: "\<not> looks_like_uuid []"
  by code_simp

lemma looks_like_uuid_nonempty: "looks_like_uuid uid \<Longrightarrow> uid \<noteq> []"
  using not_looks_like_uuid_Nil by auto

lemma resolve_cached:
  assumes t: "truthy (bearer_token m)"
    and out: "call_api_with_retry m ''GET'' (email_url m email) JNull (Some (bearer_headers m)) 0 w =
                (Inr (j, s, raw), w')"
  shows "resolve_user_id_by_email m email w =
           (if non_string_id j s then Inl TypeError else Inr (lookup_spec j s), m, w')"
proof (cases j)
  case (JObj kvs)
  show ?thesis
  proof (cases "map_of kvs ''id''")
    case None
    then show ?thesis
      by (simp add: resolve_user_id_by_email_def auth_headers_cached[OF t] out JObj
            non_string_id_def lookup_spec_def)
  next
    case (Some v)
    then show ?thesis
      by (cases v)
         (simp_all add: resolve_user_id_by_email_def auth_headers_cached[OF t] out JObj
            non_string_id_def lookup_spec_def not_looks_like_uuid_Nil)
  qed
qed (simp_all add: resolve_user_id_by_email_def auth_headers_cached[OF t] out
       non_string_id_def lookup_spec_def)

lemma resolve_cached_world:
  assumes t: "truthy (bearer_token m)"
  shows "snd (snd (resolve_user_id_by_email m email w)) =
         snd (call_api_with_retry m ''GET'' (email_url m email) JNull (Some (bearer_headers m)) 0 w)"
proof -
  let ?out = "call_api_with_retry m ''GET'' (email_url m email) JNull (Some (bearer_headers m)) 0 w"
  obtain cr w' where out: "?out = (cr, w')" by (cases ?out) auto
  show ?thesis
  proof (cases cr)
    case (Inl e)
    then show ?thesis
      by (simp add: resolve_user_id_by_email_def auth_headers_cached[OF t] out)
  next
    case (Inr res)
    obtain j s raw where res: "res = (j, s, raw)" by (cases res) auto
    from out Inr res have "?out = (Inr (j, s, raw), w')" by simp
    from resolve_cached[OF t this] show ?thesis by (simp add: out)
  qed
qed

section \<open>Properties of the loop of the runner\<close>

lemma run_loop_raise:
  "ensure_user_id m i w = (Inl e, m1, w1) \<Longrightarrow>
   run_loop action dry (i # rest) p f m w = (Inl e, m1, w1)"
  by simp

lemma run_loop_not_found:
  "ensure_user_id m i w = (Inr u, m1, w1) \<Longrightarrow> u = None \<or> u = Some [] \<Longrightarrow>
   run_loop action dry (i # rest) p f m w =
     run_loop action dry rest p (f @ [not_found_record i]) m1 w1"
  by auto

lemma run_loop_dry:
  "ensure_user_id m i w = (Inr (Some uid), m1, w1) \<Longrightarrow> uid \<noteq> [] \<Longrightarrow> dry \<Longrightarrow>
   run_loop action dry (i # rest) p f m w =
     run_loop action dry rest (p @ [status_record i uid action ''dry_run'']) f m1 w1"
  by simp

lemma run_loop_dispatch_raise:
  "ensure_user_id m i w = (Inr (Some uid), m1, w1) \<Longrightarrow> uid \<noteq> [] \<Longrightarrow>
   dispatch m1 action uid w1 = (Inl e, m2, w2) \<Longrightarrow> \<not> dry \<Longrightarrow>
   run_loop action dry (i # rest) p f m w = (Inl e, m2, w2)"
  by simp

lemma run_loop_success:
  "ensure_user_id m i w = (Inr (Some uid), m1, w1) \<Longrightarrow> uid \<noteq> [] \<Longrightarrow>
   dispatch m1 action uid w1 = (Inr True, m2, w2) \<Longrightarrow> \<not> dry \<Longrightarrow>
   run_loop action dry (i # rest) p f m w =
     run_loop action dry rest (p @ [status_record i uid action ''success'']) f m2 w2"
  by simp

lemma run_loop_failed:
  "ensure_user_id m i w = (Inr (Some uid), m1, w1) \<Longrightarrow> uid \<noteq> [] \<Longrightarrow>
   dispatch m1 action uid w1 = (Inr False, m2, w2) \<Longrightarrow> \<not> dry \<Longrightarrow>
   run_loop action dry (i # rest) p f m w =
     run_loop action dry rest p (f @ [status_record i uid action ''failed'']) m2 w2"
  by simp

declare run_loop.simps(2) [simp del]

lemma run_loop_acc:
  "run_loop action dry ids p f m w =
     (case run_loop action dry ids [] [] m w of
        (Inl e, m', w') \<Rightarrow> (Inl e, m', w')
      | (Inr (p', f'), m', w') \<Rightarrow> (Inr (p @ p', f @ f'), m', w'))"
proof (induction ids arbitrary: p f m w)
  case Nil
  show ?case by simp
next
  case (Cons i rest)
  have ih: "run_loop action dry rest (p @ a) (f @ b) m w =
     (case run_loop action dry rest a b m w of
        (Inl e, m', w') \<Rightarrow> (Inl e, m', w')
      | (Inr (p', f'), m', w') \<Rightarrow> (Inr (p @ p', f @ f'), m', w'))" for p f a b m w
  proof -
    have 1: "run_loop action dry rest (p @ a) (f @ b) m w =
       (case run_loop action dry rest [] [] m w of
          (Inl e, m', w') \<Rightarrow> (Inl e, m', w')
        | (Inr (p', f'), m', w') \<Rightarrow> (Inr ((p @ a) @ p', (f @ b) @ f'), m', w'))"
      by (rule Cons.IH)
    have 2: "run_loop action dry rest a b m w =
       (case run_loop action dry rest [] [] m w of
          (Inl e, m', w') \<Rightarrow> (Inl e, m', w')
        | (Inr (p', f'), m', w') \<Rightarrow> (Inr (a @ p', b @ f'), m', w'))"
      by (rule Cons.IH)
    show ?thesis
      unfolding 1 2 by (simp split: prod.splits sum.splits)
  qed
  obtain res m1 w1 where e: "ensure_user_id m i w = (res, m1, w1)"
    by (cases "ensure_user_id m i w") auto
  show ?case
  proof (cases res)
    case (Inl err)
    with e have e': "ensure_user_id m i w = (Inl err, m1, w1)" by simp
    show ?thesis by (simp add: run_loop_raise[OF e'])
  next
    case (Inr u)
    with e have e': "ensure_user_id m i w = (Inr u, m1, w1)" by simp
    show ?thesis
    proof (cases "u = None \<or> u = Some []")
      case True
      show ?thesis
        using ih[of p "[]" f "[not_found_record i]" m1 w1]
        by (simp add: run_loop_not_found[OF e' True])
    next
      case False
      then obtain uid where u: "u = Some uid" "uid \<noteq> []" by auto
      with e' have e'': "ensure_user_id m i w = (Inr (Some uid), m1, w1)" by simp
      show ?thesis
      proof (cases dry)
        case True
        show ?thesis
          using ih[of p "[status_record i uid action ''dry_run'']" f "[]" m1 w1]
          by (simp add: run_loop_dry[OF e'' u(2) True])
      next
        case nd: False
        obtain r2 m2 w2 where dsp: "dispatch m1 action uid w1 = (r2, m2, w2)"
          by (cases "dispatch m1 action uid w1") auto
        show ?thesis
        proof (cases r2)
          case (Inl err)
          with dsp have d': "dispatch m1 action uid w1 = (Inl err, m2, w2)" by simp
          show ?thesis by (simp add: run_loop_dispatch_raise[OF e'' u(2) d' nd])
        next
          case ok: (Inr b)
          show ?thesis
          proof (cases b)
            case True
            with dsp ok have d': "dispatch m1 action uid w1 = (Inr True, m2, w2)" by simp
            show ?thesis
              using ih[of p "[status_record i uid action ''success'']" f "[]" m2 w2]
              by (simp add: run_loop_success[OF e'' u(2) d' nd])
          next
            case False
            with dsp ok have d': "dispatch m1 action uid w1 = (Inr False, m2, w2)" by simp
            show ?thesis
              using ih[of p "[]" f "[status_record i uid action ''failed'']" m2 w2]
              by (simp add: run_loop_failed[OF e'' u(2) d' nd])
          qed
        qed
      qed
    qed
  qed
qed


lemma run_loop_acc_Inr:
  assumes "run_loop action dry ids p f m w = (Inr (p', f'), m', w')"
  obtains p'' f'' where "run_loop action dry ids [] [] m w = (Inr (p'', f''), m', w')"
    and "p' = p @ p''" and "f' = f @ f''"
proof -
  obtain res m2 w2 where r: "run_loop action dry ids [] [] m w = (res, m2, w2)"
    by (cases "run_loop action dry ids [] [] m w") auto
  have acc: "run_loop action dry ids p f m w =
     (case (res, m2, w2) of
        (Inl e, m', w') \<Rightarrow> (Inl e, m', w')
      | (Inr (p', f'), m', w') \<Rightarrow> (Inr (p @ p', f @ f'), m', w'))"
    unfolding r[symmetric] by (rule run_loop_acc)
  show ?thesis
  proof (cases res)
    case (Inl e)
    with acc assms show ?thesis by simp
  next
    case (Inr pf)
    obtain p'' f'' where pf: "pf = (p'', f'')" by (cases pf) auto
    from acc Inr pf assms have "m2 = m'" "w2 = w'" "p' = p @ p''" "f' = f @ f''"
      by simp_all
    with r Inr pf that show ?thesis by simp
  qed
qed

lemma run_loop_Cons_cases [consumes 1, case_names not_found dry_run success failed]:
  assumes run: "run_loop action dry (i # rest) [] [] m w = (Inr (p', f'), m', w')"
  obtains
    (not_found) u m1 w1 f'' where
      "ensure_user_id m i w = (Inr u, m1, w1)" "u = None \<or> u = Some []"
      "run_loop action dry rest [] [] m1 w1 = (Inr (p', f''), m', w')"
      "f' = not_found_record i # f''"
  | (dry_run) uid m1 w1 p'' where
      "dry" "ensure_user_id m i w = (Inr (Some uid), m1, w1)" "uid \<noteq> []"
      "run_loop action dry rest [] [] m1 w1 = (Inr (p'', f'), m', w')"
      "p' = status_record i uid action ''dry_run'' # p''"
  | (success) uid m1 w1 m2 w2 p'' where
      "\<not> dry" "ensure_user_id m i w = (Inr (Some uid), m1, w1)" "uid \<noteq> []"
      "dispatch m1 action uid w1 = (Inr True, m2, w2)"
      "run_loop action dry rest [] [] m2 w2 = (Inr (p'', f'), m', w')"
      "p' = status_record i uid action ''success'' # p''"
  | (failed) uid m1 w1 m2 w2 f'' where
      "\<not> dry" "ensure_user_id m i w = (Inr (Some uid), m1, w1)" "uid \<noteq> []"
      "dispatch m1 action uid w1 = (Inr False, m2, w2)"
      "run_loop action dry rest [] [] m2 w2 = (Inr (p', f''), m', w')"
      "f' = status_record i uid action ''failed'' # f''"
proof -
  obtain res m1 w1 where e: "ensure_user_id m i w = (res, m1, w1)"
    by (cases "ensure_user_id m i w") auto
  show ?thesis
  proof (cases res)
    case (Inl err)
    with e have e': "ensure_user_id m i w = (Inl err, m1, w1)" by simp
    from run show ?thesis by (simp add: run_loop_raise[OF e'])
  next
    case (Inr u)
    with e have e': "ensure_user_id m i w = (Inr u, m1, w1)" by simp
    show ?thesis
    proof (cases "u = None \<or> u = Some []")
      case True
      from run have "run_loop action dry rest [] ([] @ [not_found_record i]) m1 w1 = (Inr (p', f'), m', w')"
        by (simp only: run_loop_not_found[OF e' True])
      then obtain p'' f'' where "run_loop action dry rest [] [] m1 w1 = (Inr (p'', f''), m', w')"
        "p' = [] @ p''" "f' = ([] @ [not_found_record i]) @ f''"
        by (rule run_loop_acc_Inr)
      then show ?thesis using e' True by (intro not_found[of u m1 w1 f'']) simp_all
    next
      case False
      then obtain uid where u: "u = Some uid" "uid \<noteq> []" by auto
      with e' have e'': "ensure_user_id m i w = (Inr (Some uid), m1, w1)" by simp
      show ?thesis
      proof (cases dry)
        case True
        from run have "run_loop action dry rest ([] @ [status_record i uid action ''dry_run'']) [] m1 w1 =
            (Inr (p', f'), m', w')"
          by (simp only: run_loop_dry[OF e'' u(2) True])
        then obtain p'' f'' where "run_loop action dry rest [] [] m1 w1 = (Inr (p'', f''), m', w')"
          "p' = ([] @ [status_record i uid action ''dry_run'']) @ p''" "f' = [] @ f''"
          by (rule run_loop_acc_Inr)
        then show ?thesis using e'' u True by (intro dry_run[of uid m1 w1 p'']) simp_all
      next
        case nd: False
        obtain r2 m2 w2 where dsp: "dispatch m1 action uid w1 = (r2, m2, w2)"
          by (cases "dispatch m1 action uid w1") auto
        show ?thesis
        proof (cases r2)
          case (Inl err)
          with dsp have d': "dispatch m1 action uid w1 = (Inl err, m2, w2)" by simp
          from run show ?thesis by (simp add: run_loop_dispatch_raise[OF e'' u(2) d' nd])
        next
          case ok: (Inr b)
          show ?thesis
          proof (cases b)
            case True
            with dsp ok have d': "dispatch m1 action uid w1 = (Inr True, m2, w2)" by simp
            from run have "run_loop action dry rest ([] @ [status_record i uid action ''success'']) [] m2 w2 =
                (Inr (p', f'), m', w')"
              by (simp only: run_loop_success[OF e'' u(2) d' nd])
            then obtain p'' f'' where "run_loop action dry rest [] [] m2 w2 = (Inr (p'', f''), m', w')"
              "p' = ([] @ [status_record i uid action ''success'']) @ p''" "f' = [] @ f''"
              by (rule run_loop_acc_Inr)
            then show ?thesis using e'' u nd d' by (intro success[of uid m1 w1 m2 w2 p'']) simp_all
          next
            case False
            with dsp ok have d': "dispatch m1 action uid w1 = (Inr False, m2, w2)" by simp
            from run have "run_loop action dry rest [] ([] @ [status_record i uid action ''failed'']) m2 w2 =
                (Inr (p', f'), m', w')"
              by (simp only: run_loop_failed[OF e'' u(2) d' nd])
            then obtain p'' f'' where "run_loop action dry rest [] [] m2 w2 = (Inr (p'', f''), m', w')"
              "p' = [] @ p''" "f' = ([] @ [status_record i uid action ''failed'']) @ f''"
              by (rule run_loop_acc_Inr)
            then show ?thesis using e'' u nd d' by (intro failed[of uid m1 w1 m2 w2 f'']) simp_all
          qed
        qed
      qed
    qed
  qed
qed

lemma run_loop_lengths:
  "run_loop action dry ids [] [] m w = (Inr (p', f'), m', w') \<Longrightarrow>
   length p' + length f' = length ids"
proof (induction ids arbitrary: m w p' f')
  case Nil
  then show ?case by simp
next
  case (Cons i rest)
  from Cons.prems show ?case
  proof (cases rule: run_loop_Cons_cases)
    case (not_found u m1 w1 f'')
    from Cons.IH[OF not_found(3)] not_found(4) show ?thesis by simp
  next
    case (dry_run uid m1 w1 p'')
    from Cons.IH[OF dry_run(4)] dry_run(5) show ?thesis by simp
  next
    case (success uid m1 w1 m2 w2 p'')
    from Cons.IH[OF success(5)] success(6) show ?thesis by simp
  next
    case (failed uid m1 w1 m2 w2 f'')
    from Cons.IH[OF failed(5)] failed(6) show ?thesis by simp
  qed
qed

lemma run_Inr:
  assumes "run ids m action dry w = (Inr rep, m', w')"
  obtains h m1 w1 p f where "ids \<noteq> []" "auth_headers m w = (Inr h, m1, w1)"
    "run_loop action dry ids [] [] m1 w1 = (Inr (p, f), m', w')"
    "rep = \<lparr>r_success = (length f = 0), r_action = action, r_dry_run = dry,
            r_processed_count = length p, r_failed_count = length f,
            r_processed = p, r_failed = f\<rparr>"
proof -
  have ne: "ids \<noteq> []" using assms by (auto simp add: run_def)
  obtain a m1 w1 where au: "auth_headers m w = (a, m1, w1)"
    by (cases "auth_headers m w") auto
  show ?thesis
  proof (cases a)
    case (Inl e)
    with assms ne au show ?thesis by (simp add: run_def)
  next
    case (Inr h)
    obtain b m2 w2 where rl: "run_loop action dry ids [] [] m1 w1 = (b, m2, w2)"
      by (cases "run_loop action dry ids [] [] m1 w1") auto
    show ?thesis
    proof (cases b)
      case (Inl e)
      with assms ne au Inr rl show ?thesis by (simp add: run_def)
    next
      case r: (Inr pf)
      obtain p f where pf: "pf = (p, f)" by (cases pf) auto
      from assms ne au Inr rl r pf have
        "m2 = m'" "w2 = w'"
        "rep = \<lparr>r_success = (length f = 0), r_action = action, r_dry_run = dry,
            r_processed_count = length p, r_failed_count = length f,
            r_processed = p, r_failed = f\<rparr>"
        by (simp_all add: run_def)
      with that[of h m1 w1 p f] ne au Inr rl r pf show ?thesis by simp
    qed
  qed
qed

lemma outcome_eqI: "fst x = a \<Longrightarrow> x = (a, fst (snd x), snd (snd x))"
  by (cases x) auto

lemma identifier_of_simps [simp]:
  "identifier_of (status_record i uid action st) = Some i"
  "identifier_of (not_found_record i) = Some i"
  by (simp_all add: identifier_of_def status_record_def not_found_record_def)

lemma ensure_Some_uuid:
  assumes "ensure_user_id m i w = (Inr (Some uid), m1, w1)"
  shows "looks_like_uuid uid"
  by (cases rule: ensure_cases[where m = m and i = i and w = w]) (use assms in auto)

lemma run_loop_processed:
  "run_loop action dry ids [] [] m w = (Inr (p', f'), m', w') \<Longrightarrow>
   \<forall>rec\<in>set p'. \<exists>i\<in>set ids. \<exists>uid. looks_like_uuid uid \<and>
      rec = status_record i uid action (if dry then ''dry_run'' else ''success'')"
proof (induction ids arbitrary: m w p' f')
  case Nil
  then show ?case by simp
next
  case (Cons i rest)
  from Cons.prems show ?case
  proof (cases rule: run_loop_Cons_cases)
    case (not_found u m1 w1 f'')
    from Cons.IH[OF not_found(3)] show ?thesis by auto
  next
    case (dry_run uid m1 w1 p'')
    from Cons.IH[OF dry_run(4)] dry_run(1,5) ensure_Some_uuid[OF dry_run(2)] show ?thesis by auto
  next
    case (success uid m1 w1 m2 w2 p'')
    from Cons.IH[OF success(5)] success(1,6) ensure_Some_uuid[OF success(2)] show ?thesis by auto
  next
    case (failed uid m1 w1 m2 w2 f'')
    from Cons.IH[OF failed(5)] show ?thesis by auto
  qed
qed

lemma run_loop_failed_records:
  "run_loop action dry ids [] [] m w = (Inr (p', f'), m', w') \<Longrightarrow>
   \<forall>rec\<in>set f'. \<exists>i\<in>set ids. rec = not_found_record i \<or>
      (\<not> dry \<and> (\<exists>uid. looks_like_uuid uid \<and> rec = status_record i uid action ''failed''))"
proof (induction ids arbitrary: m w p' f')
  case Nil
  then show ?case by simp
next
  case (Cons i rest)
  from Cons.prems show ?case
  proof (cases rule: run_loop_Cons_cases)
    case (not_found u m1 w1 f'')
    from Cons.IH[OF not_found(3)] not_found(4) show ?thesis by auto
  next
    case (dry_run uid m1 w1 p'')
    from Cons.IH[OF dry_run(4)] show ?thesis by auto
  next
    case (success uid m1 w1 m2 w2 p'')
    from Cons.IH[OF success(5)] show ?thesis by auto
  next
    case (failed uid m1 w1 m2 w2 f'')
    from Cons.IH[OF failed(5)] failed(1,6) ensure_Some_uuid[OF failed(2)] show ?thesis by auto
  qed
qed

lemma run_loop_identifiers:
  "run_loop action dry ids [] [] m w = (Inr (p', f'), m', w') \<Longrightarrow>
   mset (map identifier_of (p' @ f')) = mset (map Some ids)"
proof (induction ids arbitrary: m w p' f')
  case Nil
  then show ?case by simp
next
  case (Cons i rest)
  from Cons.prems show ?case
  proof (cases rule: run_loop_Cons_cases)
    case (not_found u m1 w1 f'')
    from Cons.IH[OF not_found(3)] not_found(4) show ?thesis by simp
  next
    case (dry_run uid m1 w1 p'')
    from Cons.IH[OF dry_run(4)] dry_run(5) show ?thesis by simp
  next
    case (success uid m1 w1 m2 w2 p'')
    from Cons.IH[OF success(5)] success(6) show ?thesis by simp
  next
    case (failed uid m1 w1 m2 w2 f'')
    from Cons.IH[OF failed(5)] failed(6) show ?thesis by simp
  qed
qed

lemma run_loop_appends:
  assumes "run_loop action dry ids p f m w = (Inr (p', f'), m', w')"
  shows "take (length p) p' = p \<and> take (length f) f' = f"
  using assms by (rule run_loop_acc_Inr) simp

lemma steps_auth_or_get:
  "steps (\<lambda>r. r = auth_request m \<or> (req_method r = ''GET'' \<and> req_url r = email_url m i)) m w m1 w1 \<Longrightarrow>
   steps (\<lambda>r. r = auth_request m \<or> req_method r = ''GET'') m w m1 w1"
  by (erule steps_mono) auto

lemma steps_rebase:
  assumes "steps P m w m1 w1" and "steps (\<lambda>r. r = auth_request m1 \<or> Q r) m1 w1 m2 w2"
  shows "steps (\<lambda>r. r = auth_request m \<or> Q r) m1 w1 m2 w2"
proof -
  have "m1 = m\<lparr>bearer_token := bearer_token m1\<rparr>" using assms(1) by (rule steps_eq_token)
  then have "auth_request m1 = auth_request m" by (metis config_simps(3))
  with assms(2) show ?thesis by simp
qed

lemma run_loop_dry_run:
  "run_loop action True ids p f m w = (res, m', w') \<Longrightarrow>
   steps (\<lambda>r. r = auth_request m \<or> req_method r = ''GET'') m w m' w' \<and>
   (\<forall>e. res = Inl e \<longrightarrow> client_error e) \<and>
   (\<forall>p' f'. res = Inr (p', f') \<longrightarrow>
      p' = p @ [status_record i uid action ''dry_run''. (i, Some uid) \<leftarrow> resolutions ids m w] \<and>
      f' = f @ [not_found_record i. (i, None) \<leftarrow> resolutions ids m w])"
proof (induction ids arbitrary: p f m w)
  case Nil
  then show ?case by auto
next
  case (Cons i rest)
  let ?P = "\<lambda>m r. r = auth_request m \<or> req_method r = ''GET''"
  show ?case
  proof (cases rule: ensure_cases[where m = m and i = i and w = w])
    case (raise e m1 w1)
    have "run_loop action True (i # rest) p f m w = (Inl e, m1, w1)"
      using raise(1) by (rule run_loop_raise)
    with Cons.prems have r: "res = Inl e" "m' = m1" "w' = w1" by simp_all
    have "steps (?P m) m w m1 w1" using raise(3) by (rule steps_auth_or_get)
    then show ?thesis using r raise(2) by simp
  next
    case (answer u m1 w1)
    have s1: "steps (?P m) m w m1 w1" using answer(3) by (rule steps_auth_or_get)
    show ?thesis
    proof (cases u)
      case None
      have "run_loop action True (i # rest) p f m w =
            run_loop action True rest p (f @ [not_found_record i]) m1 w1"
        using answer(1) by (rule run_loop_not_found) (simp add: None)
      with Cons.prems have "run_loop action True rest p (f @ [not_found_record i]) m1 w1 = (res, m', w')"
        by simp
      note ih = Cons.IH[OF this]
      from ih have "steps (?P m1) m1 w1 m' w'" by simp
      with s1 have "steps (?P m) m1 w1 m' w'" by (rule steps_rebase)
      with s1 have st: "steps (?P m) m w m' w'" by (rule steps_trans)
      have rs: "resolutions (i # rest) m w = (i, None) # resolutions rest m1 w1"
        using answer(1) None by simp
      show ?thesis using st ih unfolding rs by simp
    next
      case (Some uid)
      then have "looks_like_uuid uid" using answer(2) by simp
      then have ne: "uid \<noteq> []" by (rule looks_like_uuid_nonempty)
      have e: "ensure_user_id m i w = (Inr (Some uid), m1, w1)" using answer(1) Some by simp
      have "run_loop action True (i # rest) p f m w =
            run_loop action True rest (p @ [status_record i uid action ''dry_run'']) f m1 w1"
        using e ne by (rule run_loop_dry) simp
      with Cons.prems have "run_loop action True rest (p @ [status_record i uid action ''dry_run'']) f m1 w1 = (res, m', w')"
        by simp
      note ih = Cons.IH[OF this]
      from ih have "steps (?P m1) m1 w1 m' w'" by simp
      with s1 have "steps (?P m) m1 w1 m' w'" by (rule steps_rebase)
      with s1 have st: "steps (?P m) m w m' w'" by (rule steps_trans)
      have rs: "resolutions (i # rest) m w = (i, Some uid) # resolutions rest m1 w1"
        using e by simp
      show ?thesis using st ih unfolding rs by simp
    qed
  qed
qed

lemma steps_all: "steps P m w m' w' \<Longrightarrow> \<forall>r\<in>set (new_sent w w'). P r"
  by (simp add: steps_def list_all_iff)

lemma auth_request_simps [simp]:
  "req_method (auth_request m) = ''POST''"
  "req_url (auth_request m) = gateway m @ ''/auth/vendor/''"
  by (simp_all add: auth_request_def mk_request_def)

lemma auth_url_not_lock_url: "gateway m @ ''/auth/vendor/'' \<noteq> lock_url m uid"
  by (cases "region m") (simp_all add: gateway_def lock_url_def identity_base_def)

lemma dry_run_effect:
  assumes "run ids m action True w = (res, m', w')"
  shows "steps (\<lambda>r. r = auth_request m \<or> req_method r = ''GET'') m w m' w' \<and>
         (\<forall>rep. res = Inr rep \<longrightarrow>
            r_processed rep =
              [status_record i uid action ''dry_run''.
                 (i, Some uid) \<leftarrow> resolutions ids (fst (snd (auth_headers m w))) (snd (snd (auth_headers m w)))] \<and>
            r_failed rep =
              [not_found_record i.
                 (i, None) \<leftarrow> resolutions ids (fst (snd (auth_headers m w))) (snd (snd (auth_headers m w)))])"
proof (cases "ids = []")
  case True
  with assms show ?thesis by (auto simp add: run_def)
next
  case ne: False
  let ?P = "\<lambda>m r. r = auth_request m \<or> req_method r = ''GET''"
  show ?thesis
  proof (cases rule: auth_headers_cases[where m = m and w = w])
    case (raise e w1)
    from assms ne raise(1) have r: "res = Inl e" "m' = m" "w' = w1" by (simp_all add: run_def)
    have "steps (?P m) m w m w1" using raise(3) by (rule steps_mono) simp
    then show ?thesis using r by simp
  next
    case (headers m1 w1)
    have s1: "steps (?P m) m w m1 w1" using headers(2) by (rule steps_mono) simp
    obtain b m2 w2 where rl: "run_loop action True ids [] [] m1 w1 = (b, m2, w2)"
      by (cases "run_loop action True ids [] [] m1 w1") auto
    note l = run_loop_dry_run[OF rl]
    from l have "steps (?P m1) m1 w1 m2 w2" by simp
    with s1 have "steps (?P m) m1 w1 m2 w2" by (rule steps_rebase)
    with s1 have st: "steps (?P m) m w m2 w2" by (rule steps_trans)
    show ?thesis
    proof (cases b)
      case (Inl e)
      from assms ne headers(1) rl Inl have "res = Inl e" "m' = m2" "w' = w2"
        by (simp_all add: run_def)
      then show ?thesis using st by simp
    next
      case (Inr pf)
      obtain p f where pf: "pf = (p, f)" by (cases pf) auto
      from assms ne headers(1) rl Inr pf have r: "m' = m2" "w' = w2"
        "res = Inr \<lparr>r_success = (length f = 0), r_action = action, r_dry_run = True,
            r_processed_count = length p, r_failed_count = length f,
            r_processed = p, r_failed = f\<rparr>"
        by (simp_all add: run_def)
      from l Inr pf have
        "p = [status_record i uid action ''dry_run''. (i, Some uid) \<leftarrow> resolutions ids m1 w1]"
        "f = [not_found_record i. (i, None) \<leftarrow> resolutions ids m1 w1]"
        by simp_all
      then show ?thesis using st r headers(1) by simp
    qed
  qed
qed

lemma dispatch_invalid:
  "action \<noteq> ''lock'' \<Longrightarrow> action \<noteq> ''delete'' \<Longrightarrow>
   dispatch m action uid w = (Inl Invalid_action_ValueError, m, w)"
  by (simp add: dispatch_def)

lemma dry_run_error:
  assumes "run ids m action True w = (Inl e, m', w')"
  shows "e = Empty_list_ValueError \<or> client_error e"
proof (cases "ids = []")
  case True
  with assms show ?thesis by (auto simp add: run_def)
next
  case ne: False
  show ?thesis
  proof (cases rule: auth_headers_cases[where m = m and w = w])
    case (raise e1 w1)
    from assms ne raise(1) have "e = e1" by (simp add: run_def)
    then show ?thesis using raise(2) by simp
  next
    case (headers m1 w1)
    obtain b m2 w2 where rl: "run_loop action True ids [] [] m1 w1 = (b, m2, w2)"
      by (cases "run_loop action True ids [] [] m1 w1") auto
    note l = run_loop_dry_run[OF rl]
    show ?thesis
    proof (cases b)
      case (Inl e1)
      from assms ne headers(1) rl Inl have "e = e1" by (simp add: run_def)
      then show ?thesis using l Inl by simp
    next
      case (Inr pf)
      obtain p f where pf: "pf = (p, f)" by (cases pf) auto
      from assms ne headers(1) rl Inr pf show ?thesis by (simp add: run_def)
    qed
  qed
qed

lemma run_loop_invalid_action:
  assumes a: "action \<noteq> ''lock''" "action \<noteq> ''delete''"
  shows "run_loop action False ids [] [] m w = (Inr (p', f'), m', w') \<Longrightarrow>
         p' = [] \<and> f' = map not_found_record ids"
proof (induction ids arbitrary: m w p' f')
  case Nil
  then show ?case by simp
next
  case (Cons i rest)
  from Cons.prems show ?case
  proof (cases rule: run_loop_Cons_cases)
    case (not_found u m1 w1 f'')
    from Cons.IH[OF not_found(3)] not_found(4) show ?thesis by simp
  next
    case (dry_run uid m1 w1 p'')
    then show ?thesis by simp
  next
    case (success uid m1 w1 m2 w2 p'')
    from success(4) show ?thesis by (simp add: dispatch_invalid[OF a])
  next
    case (failed uid m1 w1 m2 w2 f'')
    from failed(4) show ?thesis by (simp add: dispatch_invalid[OF a])
  qed
qed

lemma after_call:
  "snd (case out of
          (Inl e, w2) \<Rightarrow> (Inl e, m, w2)
        | (Inr (j, s, raw), w2) \<Rightarrow> (F j s raw, m, w2)) = (m, snd out)"
  by (auto split: prod.splits sum.splits)

lemma authenticate_world:
  "snd (snd (authenticate m w)) =
   snd (call_api_with_retry m ''POST'' (gateway m @ ''/auth/vendor/'')
          (JObj [(''clientId'', JStr (client_id m)), (''secret'', JStr (api_token m))])
          (Some default_headers) 0 w)"
proof -
  let ?out = "call_api_with_retry m ''POST'' (gateway m @ ''/auth/vendor/'')
          (JObj [(''clientId'', JStr (client_id m)), (''secret'', JStr (api_token m))])
          (Some default_headers) 0 w"
  obtain cr w1 where out: "?out = (cr, w1)" by (cases ?out) auto
  show ?thesis
  proof (cases cr)
    case (Inl e)
    then show ?thesis by (simp add: authenticate_def out)
  next
    case (Inr res)
    obtain j status raw where res: "res = (j, status, raw)" by (cases res) auto
    show ?thesis
      by (cases j) (simp_all add: authenticate_def out Inr res split: option.splits)
  qed
qed

lemma auth_headers_world:
  "\<not> truthy (bearer_token m) \<Longrightarrow> snd (snd (auth_headers m w)) = snd (snd (authenticate m w))"
  by (cases "authenticate m w") (auto simp add: auth_headers_def split: sum.splits)

lemma auth_headers_sends:
  assumes "\<not> truthy (bearer_token m)" and "0 \<le> rate_limit_delay m"
  shows "\<exists>k>0. new_sent w (snd (snd (auth_headers m w))) = replicate k (auth_request m)"
proof -
  let ?out = "call_api_with_retry m ''POST'' (gateway m @ ''/auth/vendor/'')
          (JObj [(''clientId'', JStr (client_id m)), (''secret'', JStr (api_token m))])
          (Some default_headers) 0 w"
  have "\<exists>x. fst ?out = Inr x"
    by (rule call_api_returns[OF assms(2)]) simp
  then obtain x where x: "fst ?out = Inr x" ..
  from call_api_sends[OF x] obtain k where "0 < k"
    "new_sent w (snd ?out) = replicate k (auth_request m)"
    by (auto simp add: auth_request_def)
  then show ?thesis
    unfolding auth_headers_world[OF assms(1)] authenticate_world by blast
qed

lemma authenticate_token:
  assumes "authenticate m w = (Inr t, m1, w1)"
  shows "m1 = m\<lparr>bearer_token := t\<rparr>"
  by (cases rule: authenticate_cases[where m = m and w = w]) (use assms in auto)

lemma auth_url_not_email_url: "gateway m @ ''/auth/vendor/'' \<noteq> email_url m e"
  by (cases "region m") (simp_all add: gateway_def email_url_def identity_base_def)

lemma auth_url_not_delete_url: "gateway m @ ''/auth/vendor/'' \<noteq> delete_url m uid"
  by (cases "region m") (simp_all add: gateway_def delete_url_def identity_base_def)

lemma mk_request_simps [simp]:
  "req_url (mk_request meth url payload hdrs) = url"
  "req_headers (mk_request meth url payload hdrs) = hdrs"
  by (simp_all add: mk_request_def)

lemma call_api_steps_url:
  assumes "url \<noteq> gateway m @ ''/auth/vendor/''"
  shows "steps (\<lambda>r. req_url r \<noteq> gateway m @ ''/auth/vendor/'') m w m
     (snd (call_api_with_retry m meth url payload hdrs rc w))"
  using call_api_steps[where m = m and w = w and meth = meth and url = url and payload = payload
      and hdrs = hdrs and rc = rc]
  by (rule steps_mono) (use assms in simp)

lemma ensure_cached:
  assumes t: "truthy (bearer_token m)" and e: "ensure_user_id m i w = (r, m1, w1)"
  shows "m1 = m \<and> steps (\<lambda>r. req_url r \<noteq> gateway m @ ''/auth/vendor/'') m w m w1"
proof (cases "looks_like_uuid i")
  case True
  with e show ?thesis by (simp add: ensure_user_id_def)
next
  case False
  let ?out = "call_api_with_retry m ''GET'' (email_url m i) JNull (Some (bearer_headers m)) 0 w"
  have r: "resolve_user_id_by_email m i w = (r, m1, w1)"
    using e False by (simp add: ensure_user_id_def)
  have w1: "w1 = snd ?out"
    using resolve_cached_world[OF t, of i w] r by simp
  have m1: "m1 = m"
  proof -
    obtain cr w' where out: "?out = (cr, w')" by (cases ?out) auto
    show ?thesis
    proof (cases cr)
      case (Inl err)
      with r show ?thesis
        by (simp add: resolve_user_id_by_email_def auth_headers_cached[OF t] out)
    next
      case (Inr res)
      obtain j s raw where res: "res = (j, s, raw)" by (cases res) auto
      from out Inr res have "?out = (Inr (j, s, raw), w')" by simp
      from resolve_cached[OF t this] r show ?thesis by simp
    qed
  qed
  have "steps (\<lambda>r. req_url r \<noteq> gateway m @ ''/auth/vendor/'') m w m (snd ?out)"
    by (rule call_api_steps_url) (use auth_url_not_email_url[of m i] in simp)
  then show ?thesis using m1 w1 by simp
qed

lemma lock_user_cached:
  assumes t: "truthy (bearer_token m)" and e: "lock_user m uid w = (r, m1, w1)"
  shows "m1 = m \<and> steps (\<lambda>r. req_url r \<noteq> gateway m @ ''/auth/vendor/'') m w m w1"
proof -
  let ?out = "call_api_with_retry m ''POST'' (lock_url m uid) (JObj []) (Some (bearer_headers m)) 0 w"
  have "snd (lock_user m uid w) = (m, snd ?out)"
    unfolding lock_user_def by (simp add: auth_headers_cached[OF t] after_call)
  with e have m1: "m1 = m" and w1: "w1 = snd ?out" by simp_all
  have "steps (\<lambda>r. req_url r \<noteq> gateway m @ ''/auth/vendor/'') m w m (snd ?out)"
    by (rule call_api_steps_url) (use auth_url_not_lock_url[of m uid] in simp)
  then show ?thesis using m1 w1 by simp
qed

lemma delete_user_cached:
  assumes t: "truthy (bearer_token m)" and e: "delete_user m uid w = (r, m1, w1)"
  shows "m1 = m \<and> steps (\<lambda>r. req_url r \<noteq> gateway m @ ''/auth/vendor/'') m w m w1"
proof -
  let ?out = "call_api_with_retry m ''DELETE'' (delete_url m uid) JNull
                (Some (tenant_headers w (bearer_headers m))) 0 w"
  have "snd (delete_user m uid w) = (m, snd ?out)"
    unfolding delete_user_def by (simp add: auth_headers_cached[OF t] after_call)
  with e have m1: "m1 = m" and w1: "w1 = snd ?out" by simp_all
  have "steps (\<lambda>r. req_url r \<noteq> gateway m @ ''/auth/vendor/'') m w m (snd ?out)"
    by (rule call_api_steps_url) (use auth_url_not_delete_url[of m uid] in simp)
  then show ?thesis using m1 w1 by simp
qed

lemma dispatch_cached:
  assumes t: "truthy (bearer_token m)" and e: "dispatch m action uid w = (r, m1, w1)"
  shows "m1 = m \<and> steps (\<lambda>r. req_url r \<noteq> gateway m @ ''/auth/vendor/'') m w m w1"
proof (cases "action = ''lock''")
  case True
  with e have "lock_user m uid w = (r, m1, w1)" by (simp add: dispatch_def)
  with t show ?thesis by (rule lock_user_cached)
next
  case nl: False
  show ?thesis
  proof (cases "action = ''delete''")
    case True
    with e nl have "delete_user m uid w = (r, m1, w1)" by (simp add: dispatch_def)
    with t show ?thesis by (rule delete_user_cached)
  next
    case False
    with e nl show ?thesis by (simp add: dispatch_def)
  qed
qed

lemma run_loop_cached:
  assumes t: "truthy (bearer_token m)"
  shows "run_loop action dry ids p f m w = (res, m', w') \<Longrightarrow>
         m' = m \<and> steps (\<lambda>r. req_url r \<noteq> gateway m @ ''/auth/vendor/'') m w m w'"
proof (induction ids arbitrary: p f w)
  case Nil
  then show ?case by simp
next
  case (Cons i rest)
  let ?P = "\<lambda>r. req_url r \<noteq> gateway m @ ''/auth/vendor/''"
  obtain r1 m1 w1 where e: "ensure_user_id m i w = (r1, m1, w1)"
    by (cases "ensure_user_id m i w") auto
  from ensure_cached[OF t e] have m1: "m1 = m" and s1: "steps ?P m w m w1" by simp_all
  show ?case
  proof (cases r1)
    case (Inl err)
    with e have "ensure_user_id m i w = (Inl err, m1, w1)" by simp
    from run_loop_raise[OF this] Cons.prems have "m' = m1" "w' = w1" by simp_all
    then show ?thesis using m1 s1 by simp
  next
    case (Inr u)
    with e m1 have e': "ensure_user_id m i w = (Inr u, m, w1)" by simp
    show ?thesis
    proof (cases "u = None \<or> u = Some []")
      case True
      from Cons.prems have "run_loop action dry rest p (f @ [not_found_record i]) m w1 = (res, m', w')"
        by (simp only: run_loop_not_found[OF e' True])
      from Cons.IH[OF this] have "m' = m" "steps ?P m w1 m w'" by simp_all
      then show ?thesis using steps_trans[OF s1] by simp
    next
      case False
      then obtain uid where u: "u = Some uid" "uid \<noteq> []" by auto
      with e' have e'': "ensure_user_id m i w = (Inr (Some uid), m, w1)" by simp
      show ?thesis
      proof (cases dry)
        case True
        from Cons.prems have "run_loop action dry rest (p @ [status_record i uid action ''dry_run'']) f m w1 =
            (res, m', w')"
          by (simp only: run_loop_dry[OF e'' u(2) True])
        from Cons.IH[OF this] have "m' = m" "steps ?P m w1 m w'" by simp_all
        then show ?thesis using steps_trans[OF s1] by simp
      next
        case nd: False
        obtain r2 m2 w2 where dsp: "dispatch m action uid w1 = (r2, m2, w2)"
          by (cases "dispatch m action uid w1") auto
        from dispatch_cached[OF t dsp] have m2: "m2 = m" and s2: "steps ?P m w1 m w2" by simp_all
        have s12: "steps ?P m w m w2" using s1 s2 by (rule steps_trans)
        show ?thesis
        proof (cases r2)
          case (Inl err)
          with dsp have d': "dispatch m action uid w1 = (Inl err, m2, w2)" by simp
          from Cons.prems have "m' = m2" "w' = w2"
            by (simp_all add: run_loop_dispatch_raise[OF e'' u(2) d' nd])
          then show ?thesis using m2 s12 by simp
        next
          case ok: (Inr b)
          show ?thesis
          proof (cases b)
            case True
            with dsp ok m2 have d': "dispatch m action uid w1 = (Inr True, m, w2)" by simp
            from Cons.prems have "run_loop action dry rest (p @ [status_record i uid action ''success'']) f m w2 =
                (res, m', w')"
              by (simp only: run_loop_success[OF e'' u(2) d' nd])
            from Cons.IH[OF this] have "m' = m" "steps ?P m w2 m w'" by simp_all
            then show ?thesis using steps_trans[OF s12] by simp
          next
            case False
            with dsp ok m2 have d': "dispatch m action uid w1 = (Inr False, m, w2)" by simp
            from Cons.prems have "run_loop action dry rest p (f @ [status_record i uid action ''failed'']) m w2 =
                (res, m', w')"
              by (simp only: run_loop_failed[OF e'' u(2) d' nd])
            from Cons.IH[OF this] have "m' = m" "steps ?P m w2 m w'" by simp_all
            then show ?thesis using steps_trans[OF s12] by simp
          qed
        qed
      qed
    qed
  qed
qed

lemma bearer_authorization:
  "map_of (bearer_headers m) ''authorization'' = Some (Bearer (bearer_token m))"
  by (simp add: bearer_headers_def update_conv')

lemma run_loop_outcomes:
  "run_loop action dry ids [] [] m w = (Inr (p', f'), m', w') \<Longrightarrow>
   map fst (outcomes action dry ids m w) = ids \<and>
   p' = concat (map (\<lambda>(i, k). case k of
               Not_resolved \<Rightarrow> []
             | Resolved uid \<Rightarrow>
                 [[(''identifier'', i), (''userId'', uid), (''action'', action), (''status'', ''dry_run'')]]
             | Acted uid ok \<Rightarrow>
                 if ok then [[(''identifier'', i), (''userId'', uid), (''action'', action), (''status'', ''success'')]]
                 else []) (outcomes action dry ids m w)) \<and>
   f' = concat (map (\<lambda>(i, k). case k of
               Not_resolved \<Rightarrow> [[(''identifier'', i), (''reason'', ''not_found'')]]
             | Resolved uid \<Rightarrow> []
             | Acted uid ok \<Rightarrow>
                 if ok then []
                 else [[(''identifier'', i), (''userId'', uid), (''action'', action), (''status'', ''failed'')]])
            (outcomes action dry ids m w)) \<and>
   list_all (\<lambda>(i, k). case k of
               Not_resolved \<Rightarrow> True
             | Resolved uid \<Rightarrow> dry
             | Acted uid ok \<Rightarrow> \<not> dry) (outcomes action dry ids m w)"
proof (induction ids arbitrary: m w p' f')
  case Nil
  then show ?case by simp
next
  case (Cons i rest)
  from Cons.prems show ?case
  proof (cases rule: run_loop_Cons_cases)
    case (not_found u m1 w1 f'')
    have o: "outcomes action dry (i # rest) m w = (i, Not_resolved) # outcomes action dry rest m1 w1"
      using not_found(1,2) by auto
    from Cons.IH[OF not_found(3)] not_found(4) show ?thesis
      unfolding o by (simp add: not_found_record_def)
  next
    case (dry_run uid m1 w1 p'')
    have o: "outcomes action dry (i # rest) m w = (i, Resolved uid) # outcomes action dry rest m1 w1"
      using dry_run(1,2,3) by simp
    from Cons.IH[OF dry_run(4)] dry_run(1,5) show ?thesis
      unfolding o by (simp add: status_record_def)
  next
    case (success uid m1 w1 m2 w2 p'')
    have o: "outcomes action dry (i # rest) m w = (i, Acted uid True) # outcomes action dry rest m2 w2"
      using success(1,2,3,4) by simp
    from Cons.IH[OF success(5)] success(1,6) show ?thesis
      unfolding o by (simp add: status_record_def)
  next
    case (failed uid m1 w1 m2 w2 f'')
    have o: "outcomes action dry (i # rest) m w = (i, Acted uid False) # outcomes action dry rest m2 w2"
      using failed(1,2,3,4) by simp
    from Cons.IH[OF failed(5)] failed(1,6) show ?thesis
      unfolding o by (simp add: status_record_def)
  qed
qed

section \<open>Properties of the deletion\<close>

lemma tenant_lookup:
  "map_of (tenant_headers w (bearer_headers m)) ''frontegg-tenant-id'' =
     (if strip (getenv w ''FRONTEGG_TENANT_ID'' []) = [] then None
      else Some (Str (strip (getenv w ''FRONTEGG_TENANT_ID'' []))))"
  by (simp add: tenant_headers_def Let_def bearer_headers_def update_conv' default_headers_def)

lemma tenant_headers_environ:
  "environ w1 = environ w \<Longrightarrow> tenant_headers w1 h = tenant_headers w h"
  by (simp add: tenant_headers_def getenv_def)

lemma steps_environ: "steps P m w m1 w1 \<Longrightarrow> environ w1 = environ w"
  by (simp add: steps_def)

lemma delete_user_steps:
  assumes "delete_user m uid w = (res, m', w')"
  shows "steps (\<lambda>r. r = auth_request m \<or>
                    r = mk_request ''DELETE'' (delete_url m uid) JNull (tenant_headers w (bearer_headers m')))
           m w m' w'"
proof (cases rule: auth_headers_cases[where m = m and w = w])
  case (raise e w1)
  from assms raise(1) have "m' = m" "w' = w1" by (simp_all add: delete_user_def)
  with raise(3) show ?thesis by (auto elim: steps_mono)
next
  case (headers m1 w1)
  let ?out = "call_api_with_retry m1 ''DELETE'' (delete_url m1 uid) JNull
                (Some (tenant_headers w1 (bearer_headers m1))) 0 w1"
  let ?P = "\<lambda>r. r = auth_request m \<or>
                r = mk_request ''DELETE'' (delete_url m uid) JNull (tenant_headers w (bearer_headers m1))"
  have "snd (delete_user m uid w) = (m1, snd ?out)"
    unfolding delete_user_def by (simp add: headers(1) after_call)
  with assms have m': "m' = m1" and w': "w' = snd ?out" by simp_all
  have m1: "m1 = m\<lparr>bearer_token := bearer_token m1\<rparr>"
    using headers(2) by (rule steps_eq_token)
  have u: "delete_url m1 uid = delete_url m uid" by (subst m1) simp
  have a: "auth_request m1 = auth_request m" by (subst m1) simp
  have th: "tenant_headers w1 (bearer_headers m1) = tenant_headers w (bearer_headers m1)"
    using steps_environ[OF headers(2)] by (rule tenant_headers_environ)
  have "steps (\<lambda>r. r = mk_request ''DELETE'' (delete_url m1 uid) JNull
                       (the_headers (Some (tenant_headers w1 (bearer_headers m1))))) m1 w1 m1 (snd ?out)"
    by (rule call_api_steps)
  then have s2: "steps (\<lambda>r. r = auth_request m1 \<or>
                r = mk_request ''DELETE'' (delete_url m uid) JNull (tenant_headers w (bearer_headers m1))) m1 w1 m1 (snd ?out)"
    by (rule steps_mono) (simp add: u th)
  have s2': "steps ?P m1 w1 m1 (snd ?out)"
    using s2 unfolding a .
  have s1: "steps ?P m w m1 w1"
    using headers(2) by (rule steps_mono) simp
  show ?thesis
    unfolding m' w' using s1 s2' by (rule steps_trans)
qed

lemma delete_user_sends:
  assumes "delete_user m uid w = (Inr ok, m', w')"
  shows "\<exists>r\<in>set (new_sent w w'). req_method r = ''DELETE''"
proof (cases rule: auth_headers_cases[where m = m and w = w])
  case (raise e w1)
  from assms raise(1) show ?thesis by (simp add: delete_user_def)
next
  case (headers m1 w1)
  let ?out = "call_api_with_retry m1 ''DELETE'' (delete_url m1 uid) JNull
                (Some (tenant_headers w1 (bearer_headers m1))) 0 w1"
  have "snd (delete_user m uid w) = (m1, snd ?out)"
    unfolding delete_user_def by (simp add: headers(1) after_call)
  with assms have w': "w' = snd ?out" by simp
  obtain cr w2 where out: "?out = (cr, w2)" by (cases ?out) auto
  have "\<exists>x. cr = Inr x"
    using assms by (cases cr) (auto simp add: delete_user_def headers(1) out)
  then obtain x where "fst ?out = Inr x" using out by auto
  from call_api_sends[OF this] obtain k where k: "0 < k"
    "new_sent w1 (snd ?out) = replicate k (mk_request ''DELETE'' (delete_url m1 uid) JNull
        (the_headers (Some (tenant_headers w1 (bearer_headers m1)))))"
    by blast
  have s1: "sent w1 = sent w @ new_sent w w1" using headers(2) by (rule steps_sent)
  have "steps (\<lambda>r. r = mk_request ''DELETE'' (delete_url m1 uid) JNull
                       (the_headers (Some (tenant_headers w1 (bearer_headers m1))))) m1 w1 m1 (snd ?out)"
    by (rule call_api_steps)
  then have s2: "sent (snd ?out) = sent w1 @ new_sent w1 (snd ?out)" by (rule steps_sent)
  have "sent (snd ?out) = sent w @ (new_sent w w1 @ new_sent w1 (snd ?out))"
    using s1 s2 by simp
  then have "drop (length (sent w)) (sent (snd ?out)) = new_sent w w1 @ new_sent w1 (snd ?out)"
    by simp
  then have "new_sent w w' = new_sent w w1 @ new_sent w1 (snd ?out)"
    unfolding w' by (simp add: new_sent_def[of w "snd ?out"])
  then have "mk_request ''DELETE'' (delete_url m1 uid) JNull
        (the_headers (Some (tenant_headers w1 (bearer_headers m1)))) \<in> set (new_sent w w')"
    using k by auto
  then show ?thesis by (rule bexI[rotated]) simp
qed

lemma call_api_tenant:
  "call_api_with_retry (m\<lparr>tenant_id := t\<rparr>) meth url payload hdrs rc w =
   call_api_with_retry m meth url payload hdrs rc w"
proof (induction rc w hdrs rule: call_api_induct[where m = m])
  case (1 rc w h)
  have ih: "int rc < max_retries m \<Longrightarrow>
      call_api_with_retry (m\<lparr>tenant_id := t\<rparr>) meth url payload h2 (Suc rc) w2 =
      call_api_with_retry m meth url payload h2 (Suc rc) w2" for w2 h2
    by (rule "1.IH")
  show ?case
    by (subst call_api_unfold[of "m\<lparr>tenant_id := t\<rparr>" meth url payload h rc w],
        subst call_api_unfold[of m meth url payload h rc w])
       (simp add: after_attempt_def after_backoff_def ih split: attempt.splits)
qed

lemma tenant_config_simps [simp]:
  "gateway (m\<lparr>tenant_id := t\<rparr>) = gateway m"
  "identity_base (m\<lparr>tenant_id := t\<rparr>) = identity_base m"
  "delete_url (m\<lparr>tenant_id := t\<rparr>) uid = delete_url m uid"
  "bearer_headers (m\<lparr>tenant_id := t\<rparr>) = bearer_headers m"
  by (simp_all add: gateway_def identity_base_def delete_url_def bearer_headers_def)

lemma authenticate_tenant:
  "authenticate (m\<lparr>tenant_id := t\<rparr>) w =
     (case authenticate m w of (r, m1, w1) \<Rightarrow> (r, m1\<lparr>tenant_id := t\<rparr>, w1))"
proof -
  let ?out = "call_api_with_retry m ''POST'' (gateway m @ ''/auth/vendor/'')
          (JObj [(''clientId'', JStr (client_id m)), (''secret'', JStr (api_token m))])
          (Some default_headers) 0 w"
  obtain cr w1 where out: "?out = (cr, w1)" by (cases ?out) auto
  show ?thesis
  proof (cases cr)
    case (Inl e)
    then show ?thesis by (simp add: authenticate_def call_api_tenant out)
  next
    case (Inr res)
    obtain j status raw where res: "res = (j, status, raw)" by (cases res) auto
    show ?thesis
      by (cases j) (simp_all add: authenticate_def call_api_tenant out Inr res split: option.splits)
  qed
qed

lemma auth_headers_tenant:
  "auth_headers (m\<lparr>tenant_id := t\<rparr>) w =
     (case auth_headers m w of (r, m1, w1) \<Rightarrow> (r, m1\<lparr>tenant_id := t\<rparr>, w1))"
proof (cases "truthy (bearer_token m)")
  case True
  then show ?thesis by (simp add: auth_headers_def)
next
  case False
  obtain a m1 w1 where au: "authenticate m w = (a, m1, w1)"
    by (cases "authenticate m w") auto
  show ?thesis
    using False by (cases a) (simp_all add: auth_headers_def authenticate_tenant au)
qed

lemma delete_user_tenant:
  "delete_user (m\<lparr>tenant_id := t\<rparr>) uid w =
     (case delete_user m uid w of (r, m1, w1) \<Rightarrow> (r, m1\<lparr>tenant_id := t\<rparr>, w1))"
proof -
  obtain a m1 w1 where au: "auth_headers m w = (a, m1, w1)"
    by (cases "auth_headers m w") auto
  show ?thesis
  proof (cases a)
    case (Inl e)
    then show ?thesis by (simp add: delete_user_def auth_headers_tenant au)
  next
    case (Inr h)
    let ?out = "call_api_with_retry m1 ''DELETE'' (delete_url m1 uid) JNull (Some (tenant_headers w1 h)) 0 w1"
    obtain cr w2 where out: "?out = (cr, w2)" by (cases ?out) auto
    show ?thesis
      by (cases cr) (auto simp add: delete_user_def auth_headers_tenant au Inr call_api_tenant out)
  qed
qed

lemma steps_delete_requests:
  assumes "steps (\<lambda>r. r = auth_request m \<or> r = mk_request ''DELETE'' url JNull h) m w m' w'"
    and "r \<in> set (new_sent w w')" and "req_method r = ''DELETE''"
  shows "r = mk_request ''DELETE'' url JNull h"
proof -
  from steps_all[OF assms(1)] assms(2)
  have "r = auth_request m \<or> r = mk_request ''DELETE'' url JNull h" by blast
  with assms(3) show ?thesis by auto
qed

section \<open>Resolving identifiers\<close>

text \<open>
  Claim C5. For every input string that matches the UUID pattern, \<open>_ensure_user_id\<close>
  returns the input string itself and performs no HTTP call: the manager and the world,
  with its log of requests sent, are returned as they were.
\<close>

theorem ensure_user_id_uuid:
  "looks_like_uuid identifier \<Longrightarrow>
     ensure_user_id m identifier w = (Inr (Some identifier), m, w)"
  by (simp add: ensure_user_id_def)

theorem ensure_user_id_uuid_witness:
  "looks_like_uuid ''11111111-1111-4111-8111-111111111111'' \<and>
   ensure_user_id example_manager ''11111111-1111-4111-8111-111111111111'' example_world =
     (Inr (Some ''11111111-1111-4111-8111-111111111111''), example_manager, example_world)"
proof -
  have u: "looks_like_uuid ''11111111-1111-4111-8111-111111111111''"
    by code_simp
  show ?thesis
    using u ensure_user_id_uuid [OF u, of example_manager example_world] by simp
qed

section \<open>Actions other than lock and delete\<close>

text \<open>
  Claim C1, as amended. For an action other than \<open>lock\<close> and \<open>delete\<close>: a dry run never
  raises the invalid-action error; in execute mode the loop raises it at an identifier
  that resolves to a user id, after resolving it, whatever was processed before; a run
  in execute mode that returns a report has iterated the whole list, with every
  identifier recorded as not found; and \<open>main\<close>, which checks the action once, exits with
  status 2 before the manager is built and before anything is sent.
\<close>

theorem run_invalid_action:
  assumes "action \<noteq> ''lock''" and "action \<noteq> ''delete''"
  shows "fst (run ids m action True w) \<noteq> Inl Invalid_action_ValueError \<and>
         (ensure_user_id m2 i w2 = (Inr (Some uid), m3, w3) \<longrightarrow>
            run_loop action False (i # rest) p f m2 w2 = (Inl Invalid_action_ValueError, m3, w3)) \<and>
         (run ids m action False w = (Inr rep, m', w') \<longrightarrow>
            r_processed rep = [] \<and> r_failed rep = map not_found_record ids) \<and>
         (lower (strip (case args_action of None \<Rightarrow> USER_ACTION_ENV
                        | Some a \<Rightarrow> if a = [] then USER_ACTION_ENV else a)) = action \<longrightarrow>
            main args_action args_execute USER_ACTION_ENV ids delay retries w = (Inl (SystemExit 2), w))"
proof (intro conjI impI)
  show "fst (run ids m action True w) \<noteq> Inl Invalid_action_ValueError"
  proof
    assume "fst (run ids m action True w) = Inl Invalid_action_ValueError"
    then have "run ids m action True w =
        (Inl Invalid_action_ValueError, fst (snd (run ids m action True w)), snd (snd (run ids m action True w)))"
      by (rule outcome_eqI)
    from dry_run_error[OF this] show False by simp
  qed
next
  assume e: "ensure_user_id m2 i w2 = (Inr (Some uid), m3, w3)"
  have "uid \<noteq> []" using ensure_Some_uuid[OF e] by (rule looks_like_uuid_nonempty)
  with e show "run_loop action False (i # rest) p f m2 w2 = (Inl Invalid_action_ValueError, m3, w3)"
    by (rule run_loop_dispatch_raise) (simp_all add: dispatch_invalid[OF assms])
next
  assume "run ids m action False w = (Inr rep, m', w')"
  then obtain h m1 w1 p0 f0 where
    rl: "run_loop action False ids [] [] m1 w1 = (Inr (p0, f0), m', w')" and
    rep: "rep = \<lparr>r_success = (length f0 = 0), r_action = action, r_dry_run = False,
            r_processed_count = length p0, r_failed_count = length f0,
            r_processed = p0, r_failed = f0\<rparr>"
    by (rule run_Inr)
  from run_loop_invalid_action[OF assms rl]
  show "r_processed rep = []" "r_failed rep = map not_found_record ids"
    by (simp_all add: rep)
next
  assume "lower (strip (case args_action of None \<Rightarrow> USER_ACTION_ENV
                        | Some a \<Rightarrow> if a = [] then USER_ACTION_ENV else a)) = action"
  then show "main args_action args_execute USER_ACTION_ENV ids delay retries w = (Inl (SystemExit 2), w)"
    using assms by (simp add: main_def)
qed

theorem run_invalid_action_witness:
  "fst (run [''11111111-1111-4111-8111-111111111111'', ''nobody@example.com'']
          example_manager ''purge'' True example_world) \<noteq> Inl Invalid_action_ValueError \<and>
   run_loop ''purge'' False [''11111111-1111-4111-8111-111111111111'', ''nobody@example.com''] [] []
       example_manager example_world =
     (Inl Invalid_action_ValueError, example_manager, example_world) \<and>
   fst (run [''nobody@example.com''] example_manager ''purge'' False example_world) =
     Inr \<lparr>r_success = False, r_action = ''purge'', r_dry_run = False,
           r_processed_count = 0, r_failed_count = 1,
           r_processed = [],
           r_failed = [not_found_record ''nobody@example.com'']\<rparr> \<and>
   r_failed \<lparr>r_success = False, r_action = ''purge'', r_dry_run = False,
           r_processed_count = 0, r_failed_count = 1,
           r_processed = [],
           r_failed = [not_found_record ''nobody@example.com'']\<rparr> =
     map not_found_record [''nobody@example.com''] \<and>
   main (Some '' Purge '') True [] [''nobody@example.com''] (1 / 2) 3 example_world =
     (Inl (SystemExit 2), example_world)"
proof -
  have a: "''purge'' \<noteq> ''lock''" "''purge'' \<noteq> ''delete''" by simp_all
  have u: "looks_like_uuid ''11111111-1111-4111-8111-111111111111''"
    by code_simp
  have en: "ensure_user_id example_manager ''11111111-1111-4111-8111-111111111111'' example_world =
      (Inr (Some ''11111111-1111-4111-8111-111111111111''), example_manager, example_world)"
    using u by (simp add: ensure_user_id_def)
  have e: "fst (run [''nobody@example.com''] example_manager ''purge'' False example_world) =
     Inr \<lparr>r_success = False, r_action = ''purge'', r_dry_run = False,
           r_processed_count = 0, r_failed_count = 1,
           r_processed = [],
           r_failed = [not_found_record ''nobody@example.com'']\<rparr>"
    by code_simp
  have l: "lower (strip (case Some '' Purge '' of None \<Rightarrow> []
                        | Some a \<Rightarrow> if a = [] then [] else a)) = ''purge''"
    by code_simp
  note t = run_invalid_action [OF a]
  note c1 = t [where ids = "[''11111111-1111-4111-8111-111111111111'', ''nobody@example.com'']"
      and m = example_manager and w = example_world, THEN conjunct1]
  note c2 = t [where rest = "[''nobody@example.com'']" and p = "[]" and f = "[]",
      THEN conjunct2, THEN conjunct1, THEN mp, OF en]
  note c3 = t [THEN conjunct2, THEN conjunct2, THEN conjunct1, THEN mp, OF outcome_eqI [OF e]]
  note c4 = t [where args_action = "Some '' Purge ''" and USER_ACTION_ENV = "[]"
      and args_execute = True and ids = "[''nobody@example.com'']" and delay = "1 / 2" and retries = 3
      and w = example_world,
      THEN conjunct2, THEN conjunct2, THEN conjunct2, THEN mp, OF l]
  from c3 have c3': "r_failed \<lparr>r_success = False, r_action = ''purge'', r_dry_run = False,
           r_processed_count = 0, r_failed_count = 1,
           r_processed = [],
           r_failed = [not_found_record ''nobody@example.com'']\<rparr> =
     map not_found_record [''nobody@example.com'']"
    by simp
  from c1 c2 e c3' c4 show ?thesis by (intro conjI)
qed

text \<open>
  The claim as written fails: with the action \<open>purge\<close>, a dry run iterates the list and
  returns a report, and a run in execute mode raises only at the second identifier, after
  the lookup of the first has been sent.
\<close>

theorem run_invalid_action_counterexample:
  "fst (run [''11111111-1111-4111-8111-111111111111'', ''nobody@example.com'']
          example_manager ''purge'' True example_world) =
     Inr \<lparr>r_success = False, r_action = ''purge'', r_dry_run = True,
           r_processed_count = 1, r_failed_count = 1,
           r_processed =
             [status_record ''11111111-1111-4111-8111-111111111111''
                ''11111111-1111-4111-8111-111111111111'' ''purge'' ''dry_run''],
           r_failed = [not_found_record ''nobody@example.com'']\<rparr> \<and>
   fst (run [''nobody@example.com'', ''11111111-1111-4111-8111-111111111111'']
          example_manager ''purge'' False example_world) = Inl Invalid_action_ValueError \<and>
   map req_method (sent (snd (snd (run [''nobody@example.com'', ''11111111-1111-4111-8111-111111111111'']
          example_manager ''purge'' False example_world)))) = [''POST'', ''GET'']"
proof -
  have c1: "fst (run [''11111111-1111-4111-8111-111111111111'', ''nobody@example.com'']
          example_manager ''purge'' True example_world) =
     Inr \<lparr>r_success = False, r_action = ''purge'', r_dry_run = True,
           r_processed_count = 1, r_failed_count = 1,
           r_processed =
             [status_record ''11111111-1111-4111-8111-111111111111''
                ''11111111-1111-4111-8111-111111111111'' ''purge'' ''dry_run''],
           r_failed = [not_found_record ''nobody@example.com'']\<rparr>"
    by code_simp
  have c2: "fst (run [''nobody@example.com'', ''11111111-1111-4111-8111-111111111111'']
          example_manager ''purge'' False example_world) = Inl Invalid_action_ValueError"
    by code_simp
  have c3: "map req_method (sent (snd (snd (run [''nobody@example.com'', ''11111111-1111-4111-8111-111111111111'']
          example_manager ''purge'' False example_world)))) = [''POST'', ''GET'']"
    by code_simp
  from c1 c2 c3 show ?thesis by (intro conjI)
qed

section \<open>The report of a run\<close>

text \<open>
  Claim C2. For every run that returns a report, \<open>processed_count\<close> is the length of the
  \<open>processed\<close> list, \<open>failed_count\<close> is the length of the \<open>failed\<close> list, the two counts add
  up to the length of the identifier list, and \<open>success\<close> holds if and only if
  \<open>failed_count\<close> is zero.
\<close>

theorem run_report_counts:
  assumes "run ids m action dry_run w = (Inr rep, m', w')"
  shows "r_processed_count rep = length (r_processed rep) \<and>
         r_failed_count rep = length (r_failed rep) \<and>
         r_processed_count rep + r_failed_count rep = length ids \<and>
         (r_success rep \<longleftrightarrow> r_failed_count rep = 0)"
proof -
  from assms obtain h m1 w1 p f where
    rl: "run_loop action dry_run ids [] [] m1 w1 = (Inr (p, f), m', w')" and
    rep: "rep = \<lparr>r_success = (length f = 0), r_action = action, r_dry_run = dry_run,
            r_processed_count = length p, r_failed_count = length f,
            r_processed = p, r_failed = f\<rparr>"
    by (rule run_Inr)
  from run_loop_lengths[OF rl] show ?thesis by (simp add: rep)
qed

theorem run_report_counts_witness:
  "fst (run [''11111111-1111-4111-8111-111111111111'', ''user@example.com'', ''nobody@example.com'']
            example_manager ''lock'' False example_world) =
     Inr \<lparr>r_success = False, r_action = ''lock'', r_dry_run = False,
           r_processed_count = 2, r_failed_count = 1,
           r_processed =
             [status_record ''11111111-1111-4111-8111-111111111111''
                ''11111111-1111-4111-8111-111111111111'' ''lock'' ''success'',
              status_record ''user@example.com'' ''22222222-2222-4222-9222-222222222222''
                ''lock'' ''success''],
           r_failed = [not_found_record ''nobody@example.com'']\<rparr> \<and>
   r_processed_count \<lparr>r_success = False, r_action = ''lock'', r_dry_run = False,
           r_processed_count = 2, r_failed_count = 1,
           r_processed =
             [status_record ''11111111-1111-4111-8111-111111111111''
                ''11111111-1111-4111-8111-111111111111'' ''lock'' ''success'',
              status_record ''user@example.com'' ''22222222-2222-4222-9222-222222222222''
                ''lock'' ''success''],
           r_failed = [not_found_record ''nobody@example.com'']\<rparr> +
   r_failed_count \<lparr>r_success = False, r_action = ''lock'', r_dry_run = False,
           r_processed_count = 2, r_failed_count = 1,
           r_processed =
             [status_record ''11111111-1111-4111-8111-111111111111''
                ''11111111-1111-4111-8111-111111111111'' ''lock'' ''success'',
              status_record ''user@example.com'' ''22222222-2222-4222-9222-222222222222''
                ''lock'' ''success''],
           r_failed = [not_found_record ''nobody@example.com'']\<rparr> = 3 \<and>
   \<not> r_success \<lparr>r_success = False, r_action = ''lock'', r_dry_run = False,
           r_processed_count = 2, r_failed_count = 1,
           r_processed =
             [status_record ''11111111-1111-4111-8111-111111111111''
                ''11111111-1111-4111-8111-111111111111'' ''lock'' ''success'',
              status_record ''user@example.com'' ''22222222-2222-4222-9222-222222222222''
                ''lock'' ''success''],
           r_failed = [not_found_record ''nobody@example.com'']\<rparr>"
proof -
  have e: "fst (run [''11111111-1111-4111-8111-111111111111'', ''user@example.com'', ''nobody@example.com'']
            example_manager ''lock'' False example_world) =
     Inr \<lparr>r_success = False, r_action = ''lock'', r_dry_run = False,
           r_processed_count = 2, r_failed_count = 1,
           r_processed =
             [status_record ''11111111-1111-4111-8111-111111111111''
                ''11111111-1111-4111-8111-111111111111'' ''lock'' ''success'',
              status_record ''user@example.com'' ''22222222-2222-4222-9222-222222222222''
                ''lock'' ''success''],
           r_failed = [not_found_record ''nobody@example.com'']\<rparr>"
    by code_simp
  from run_report_counts [OF outcome_eqI [OF e]] e show ?thesis by simp
qed

section \<open>Dry runs\<close>

text \<open>
  Claim C3. In a dry run, for every identifier list and every action, and whether the run
  returns or raises, every request sent is the authentication request or a GET: none is a
  DELETE and none is a POST to a lock URL, so neither \<open>lock_user\<close> nor \<open>delete_user\<close>
  has sent anything. When the run returns, \<open>processed\<close> holds, in order, one record for
  every identifier that \<open>_ensure_user_id\<close> resolves to a user id (the identifiers being
  resolved one after the other, after the authentication the run starts with): the
  identifier, this user id, the action and the status \<open>dry_run\<close>; and \<open>failed\<close> holds a
  record with the identifier and the reason \<open>not_found\<close> for each of the others.
\<close>

theorem run_dry_run:
  assumes "run ids m action True w = (res, m', w')"
  shows "(\<forall>r\<in>set (new_sent w w').
            (r = auth_request m \<or> req_method r = ''GET'') \<and>
            req_method r \<noteq> ''DELETE'' \<and>
            (req_method r = ''POST'' \<longrightarrow> (\<forall>uid. req_url r \<noteq> lock_url m uid))) \<and>
         (\<forall>rep. res = Inr rep \<longrightarrow>
            r_processed rep =
              [[(''identifier'', i), (''userId'', uid), (''action'', action), (''status'', ''dry_run'')].
                 (i, Some uid) \<leftarrow> resolutions ids (fst (snd (auth_headers m w))) (snd (snd (auth_headers m w)))] \<and>
            r_failed rep =
              [[(''identifier'', i), (''reason'', ''not_found'')].
                 (i, None) \<leftarrow> resolutions ids (fst (snd (auth_headers m w))) (snd (snd (auth_headers m w)))])"
proof -
  note e = dry_run_effect[OF assms]
  from e have "steps (\<lambda>r. r = auth_request m \<or> req_method r = ''GET'') m w m' w'" by simp
  then have a: "\<forall>r\<in>set (new_sent w w'). r = auth_request m \<or> req_method r = ''GET''"
    by (rule steps_all)
  have b: "req_method r \<noteq> ''DELETE'' \<and>
      (req_method r = ''POST'' \<longrightarrow> (\<forall>uid. req_url r \<noteq> lock_url m uid))"
    if "r = auth_request m \<or> req_method r = ''GET''" for r
    using that
  proof
    assume "r = auth_request m"
    then show ?thesis using auth_url_not_lock_url[of m] by simp
  next
    assume "req_method r = ''GET''"
    then show ?thesis by simp
  qed
  from a b e show ?thesis
    unfolding status_record_def not_found_record_def by blast
qed

theorem run_dry_run_witness:
  "fst (run [''11111111-1111-4111-8111-111111111111'', ''user@example.com'', ''nobody@example.com'']
            example_manager ''delete'' True example_world) =
     Inr \<lparr>r_success = False, r_action = ''delete'', r_dry_run = True,
           r_processed_count = 2, r_failed_count = 1,
           r_processed =
             [[(''identifier'', ''11111111-1111-4111-8111-111111111111''), (''userId'', ''11111111-1111-4111-8111-111111111111''), (''action'', ''delete''), (''status'', ''dry_run'')],
              [(''identifier'', ''user@example.com''), (''userId'', ''22222222-2222-4222-9222-222222222222''), (''action'', ''delete''), (''status'', ''dry_run'')]],
           r_failed = [[(''identifier'', ''nobody@example.com''), (''reason'', ''not_found'')]]\<rparr> \<and>
   list_all (\<lambda>r. req_method r \<noteq> ''DELETE'')
     (new_sent example_world (snd (snd (run [''11111111-1111-4111-8111-111111111111'', ''user@example.com'', ''nobody@example.com'']
            example_manager ''delete'' True example_world)))) \<and>
   [[(''identifier'', i), (''userId'', uid), (''action'', ''delete''), (''status'', ''dry_run'')]. (i, Some uid) \<leftarrow> resolutions [''11111111-1111-4111-8111-111111111111'', ''user@example.com'', ''nobody@example.com'']
          (fst (snd (auth_headers example_manager example_world)))
          (snd (snd (auth_headers example_manager example_world)))] =
     [[(''identifier'', ''11111111-1111-4111-8111-111111111111''), (''userId'', ''11111111-1111-4111-8111-111111111111''), (''action'', ''delete''), (''status'', ''dry_run'')],
      [(''identifier'', ''user@example.com''), (''userId'', ''22222222-2222-4222-9222-222222222222''), (''action'', ''delete''), (''status'', ''dry_run'')]]"
proof -
  have e: "fst (run [''11111111-1111-4111-8111-111111111111'', ''user@example.com'', ''nobody@example.com'']
            example_manager ''delete'' True example_world) =
     Inr \<lparr>r_success = False, r_action = ''delete'', r_dry_run = True,
           r_processed_count = 2, r_failed_count = 1,
           r_processed =
             [[(''identifier'', ''11111111-1111-4111-8111-111111111111''), (''userId'', ''11111111-1111-4111-8111-111111111111''), (''action'', ''delete''), (''status'', ''dry_run'')],
              [(''identifier'', ''user@example.com''), (''userId'', ''22222222-2222-4222-9222-222222222222''), (''action'', ''delete''), (''status'', ''dry_run'')]],
           r_failed = [[(''identifier'', ''nobody@example.com''), (''reason'', ''not_found'')]]\<rparr>"
    by code_simp
  note t = run_dry_run [OF outcome_eqI [OF e]]
  from t have a: "list_all (\<lambda>r. req_method r \<noteq> ''DELETE'')
     (new_sent example_world (snd (snd (run [''11111111-1111-4111-8111-111111111111'', ''user@example.com'', ''nobody@example.com'']
            example_manager ''delete'' True example_world))))"
    by (simp add: list_all_iff)
  from t have b: "[[(''identifier'', i), (''userId'', uid), (''action'', ''delete''), (''status'', ''dry_run'')]. (i, Some uid) \<leftarrow> resolutions [''11111111-1111-4111-8111-111111111111'', ''user@example.com'', ''nobody@example.com'']
          (fst (snd (auth_headers example_manager example_world)))
          (snd (snd (auth_headers example_manager example_world)))] =
     [[(''identifier'', ''11111111-1111-4111-8111-111111111111''), (''userId'', ''11111111-1111-4111-8111-111111111111''), (''action'', ''delete''), (''status'', ''dry_run'')],
      [(''identifier'', ''user@example.com''), (''userId'', ''22222222-2222-4222-9222-222222222222''), (''action'', ''delete''), (''status'', ''dry_run'')]]"
    by simp
  from e a b show ?thesis by (intro conjI)
qed

section \<open>The records of the report\<close>

text \<open>
  Claim C4, as amended. In a run that returns a report the loop has gone through every
  identifier of the list, in order, and has appended one record for each. For an
  identifier that \<open>_ensure_user_id\<close> resolves to a user id, the record holds the identifier,
  this user id, the action and a status: \<open>dry_run\<close> in a dry run, in \<open>processed\<close>; in
  execute mode \<open>success\<close>, in \<open>processed\<close>, when the action returned true, and \<open>failed\<close>, in
  \<open>failed\<close>, when it returned false. For an identifier that did not resolve, the record,
  in \<open>failed\<close>, holds the identifier and the reason \<open>not_found\<close>, with no action and no
  status. The loop only appends to the two lists: what they held before is kept as it
  was.
\<close>

theorem run_records:
  "(run ids m action dry w = (Inr rep, m', w') \<longrightarrow>
      map fst (outcomes action dry ids (fst (snd (auth_headers m w))) (snd (snd (auth_headers m w)))) = ids \<and>
      r_processed rep =
        concat (map (\<lambda>(i, k). case k of
            Not_resolved \<Rightarrow> []
          | Resolved uid \<Rightarrow>
              [[(''identifier'', i), (''userId'', uid), (''action'', action), (''status'', ''dry_run'')]]
          | Acted uid ok \<Rightarrow>
              if ok then [[(''identifier'', i), (''userId'', uid), (''action'', action), (''status'', ''success'')]]
              else [])
         (outcomes action dry ids (fst (snd (auth_headers m w))) (snd (snd (auth_headers m w))))) \<and>
      r_failed rep =
        concat (map (\<lambda>(i, k). case k of
            Not_resolved \<Rightarrow> [[(''identifier'', i), (''reason'', ''not_found'')]]
          | Resolved uid \<Rightarrow> []
          | Acted uid ok \<Rightarrow>
              if ok then []
              else [[(''identifier'', i), (''userId'', uid), (''action'', action), (''status'', ''failed'')]])
         (outcomes action dry ids (fst (snd (auth_headers m w))) (snd (snd (auth_headers m w))))) \<and>
      list_all (\<lambda>(i, k). case k of
            Not_resolved \<Rightarrow> True
          | Resolved uid \<Rightarrow> dry
          | Acted uid ok \<Rightarrow> \<not> dry)
         (outcomes action dry ids (fst (snd (auth_headers m w))) (snd (snd (auth_headers m w)))) \<and>
      (\<forall>rec\<in>set (r_processed rep). \<exists>i\<in>set ids. \<exists>uid. looks_like_uuid uid \<and>
          rec = [(''identifier'', i), (''userId'', uid), (''action'', action),
                 (''status'', if dry then ''dry_run'' else ''success'')]) \<and>
      (\<forall>rec\<in>set (r_failed rep). \<exists>i\<in>set ids. rec = [(''identifier'', i), (''reason'', ''not_found'')] \<or>
          (\<not> dry \<and> (\<exists>uid. looks_like_uuid uid \<and>
             rec = [(''identifier'', i), (''userId'', uid), (''action'', action), (''status'', ''failed'')]))) \<and>
      mset (map identifier_of (r_processed rep @ r_failed rep)) = mset (map Some ids)) \<and>
   (run_loop action dry ids p f m2 w2 = (Inr (p', f'), m3, w3) \<longrightarrow>
      take (length p) p' = p \<and> take (length f) f' = f)"
proof (intro conjI impI)
  assume "run ids m action dry w = (Inr rep, m', w')"
  then obtain h m1 w1 p0 f0 where
    au: "auth_headers m w = (Inr h, m1, w1)" and
    rl: "run_loop action dry ids [] [] m1 w1 = (Inr (p0, f0), m', w')" and
    rep: "rep = \<lparr>r_success = (length f0 = 0), r_action = action, r_dry_run = dry,
            r_processed_count = length p0, r_failed_count = length f0,
            r_processed = p0, r_failed = f0\<rparr>"
    by (rule run_Inr)
  have os: "outcomes action dry ids (fst (snd (auth_headers m w))) (snd (snd (auth_headers m w))) =
      outcomes action dry ids m1 w1"
    by (simp add: au)
  note o = run_loop_outcomes[OF rl]
  show "map fst (outcomes action dry ids (fst (snd (auth_headers m w))) (snd (snd (auth_headers m w)))) = ids"
    unfolding os using o by simp
  show "r_processed rep =
        concat (map (\<lambda>(i, k). case k of
            Not_resolved \<Rightarrow> []
          | Resolved uid \<Rightarrow>
              [[(''identifier'', i), (''userId'', uid), (''action'', action), (''status'', ''dry_run'')]]
          | Acted uid ok \<Rightarrow>
              if ok then [[(''identifier'', i), (''userId'', uid), (''action'', action), (''status'', ''success'')]]
              else [])
         (outcomes action dry ids (fst (snd (auth_headers m w))) (snd (snd (auth_headers m w)))))"
    unfolding os using o by (simp add: rep)
  show "r_failed rep =
        concat (map (\<lambda>(i, k). case k of
            Not_resolved \<Rightarrow> [[(''identifier'', i), (''reason'', ''not_found'')]]
          | Resolved uid \<Rightarrow> []
          | Acted uid ok \<Rightarrow>
              if ok then []
              else [[(''identifier'', i), (''userId'', uid), (''action'', action), (''status'', ''failed'')]])
         (outcomes action dry ids (fst (snd (auth_headers m w))) (snd (snd (auth_headers m w)))))"
    unfolding os using o by (simp add: rep)
  show "list_all (\<lambda>(i, k). case k of
            Not_resolved \<Rightarrow> True
          | Resolved uid \<Rightarrow> dry
          | Acted uid ok \<Rightarrow> \<not> dry)
         (outcomes action dry ids (fst (snd (auth_headers m w))) (snd (snd (auth_headers m w))))"
    unfolding os using o by simp
  show "\<forall>rec\<in>set (r_processed rep). \<exists>i\<in>set ids. \<exists>uid. looks_like_uuid uid \<and>
          rec = [(''identifier'', i), (''userId'', uid), (''action'', action),
                 (''status'', if dry then ''dry_run'' else ''success'')]"
    using run_loop_processed[OF rl] by (simp add: rep status_record_def)
  show "\<forall>rec\<in>set (r_failed rep). \<exists>i\<in>set ids. rec = [(''identifier'', i), (''reason'', ''not_found'')] \<or>
          (\<not> dry \<and> (\<exists>uid. looks_like_uuid uid \<and>
             rec = [(''identifier'', i), (''userId'', uid), (''action'', action), (''status'', ''failed'')]))"
    using run_loop_failed_records[OF rl] by (simp add: rep status_record_def not_found_record_def)
  show "mset (map identifier_of (r_processed rep @ r_failed rep)) = mset (map Some ids)"
    using run_loop_identifiers[OF rl] by (simp add: rep)
next
  assume a: "run_loop action dry ids p f m2 w2 = (Inr (p', f'), m3, w3)"
  from run_loop_appends[OF a] show "take (length p) p' = p" by simp
  from run_loop_appends[OF a] show "take (length f) f' = f" by simp
qed

theorem run_records_witness:
  "fst (run [''11111111-1111-4111-8111-111111111111'', ''user@example.com'', ''nobody@example.com'']
            example_manager ''lock'' False example_world) =
     Inr \<lparr>r_success = False, r_action = ''lock'', r_dry_run = False,
           r_processed_count = 2, r_failed_count = 1,
           r_processed =
             [[(''identifier'', ''11111111-1111-4111-8111-111111111111''), (''userId'', ''11111111-1111-4111-8111-111111111111''), (''action'', ''lock''), (''status'', ''success'')],
              [(''identifier'', ''user@example.com''), (''userId'', ''22222222-2222-4222-9222-222222222222''), (''action'', ''lock''), (''status'', ''success'')]],
           r_failed = [[(''identifier'', ''nobody@example.com''), (''reason'', ''not_found'')]]\<rparr> \<and>
   outcomes ''lock'' False [''11111111-1111-4111-8111-111111111111'', ''user@example.com'', ''nobody@example.com'']
        (fst (snd (auth_headers example_manager example_world)))
        (snd (snd (auth_headers example_manager example_world))) =
     [(''11111111-1111-4111-8111-111111111111'', Acted ''11111111-1111-4111-8111-111111111111'' True),
      (''user@example.com'', Acted ''22222222-2222-4222-9222-222222222222'' True),
      (''nobody@example.com'', Not_resolved)] \<and>
   map fst (outcomes ''lock'' False [''11111111-1111-4111-8111-111111111111'', ''user@example.com'', ''nobody@example.com'']
        (fst (snd (auth_headers example_manager example_world)))
        (snd (snd (auth_headers example_manager example_world)))) =
     [''11111111-1111-4111-8111-111111111111'', ''user@example.com'', ''nobody@example.com''] \<and>
   mset (map identifier_of
     [[(''identifier'', ''11111111-1111-4111-8111-111111111111''), (''userId'', ''11111111-1111-4111-8111-111111111111''), (''action'', ''lock''), (''status'', ''success'')],
      [(''identifier'', ''user@example.com''), (''userId'', ''22222222-2222-4222-9222-222222222222''), (''action'', ''lock''), (''status'', ''success'')],
      [(''identifier'', ''nobody@example.com''), (''reason'', ''not_found'')]]) =
   mset (map Some [''11111111-1111-4111-8111-111111111111'', ''user@example.com'', ''nobody@example.com'']) \<and>
   fst (run_loop ''lock'' True [''11111111-1111-4111-8111-111111111111'']
          [[(''identifier'', ''a''), (''reason'', ''not_found'')]] [[(''identifier'', ''b''), (''reason'', ''not_found'')]] example_manager example_world) =
     Inr ([[(''identifier'', ''a''), (''reason'', ''not_found'')],
           [(''identifier'', ''11111111-1111-4111-8111-111111111111''), (''userId'', ''11111111-1111-4111-8111-111111111111''), (''action'', ''lock''), (''status'', ''dry_run'')]],
          [[(''identifier'', ''b''), (''reason'', ''not_found'')]]) \<and>
   take (length [[(''identifier'', ''a''), (''reason'', ''not_found'')]])
     [[(''identifier'', ''a''), (''reason'', ''not_found'')],
      [(''identifier'', ''11111111-1111-4111-8111-111111111111''), (''userId'', ''11111111-1111-4111-8111-111111111111''), (''action'', ''lock''), (''status'', ''dry_run'')]] =
     [[(''identifier'', ''a''), (''reason'', ''not_found'')]]"
proof -
  have e: "fst (run [''11111111-1111-4111-8111-111111111111'', ''user@example.com'', ''nobody@example.com'']
            example_manager ''lock'' False example_world) =
     Inr \<lparr>r_success = False, r_action = ''lock'', r_dry_run = False,
           r_processed_count = 2, r_failed_count = 1,
           r_processed =
             [[(''identifier'', ''11111111-1111-4111-8111-111111111111''), (''userId'', ''11111111-1111-4111-8111-111111111111''), (''action'', ''lock''), (''status'', ''success'')],
              [(''identifier'', ''user@example.com''), (''userId'', ''22222222-2222-4222-9222-222222222222''), (''action'', ''lock''), (''status'', ''success'')]],
           r_failed = [[(''identifier'', ''nobody@example.com''), (''reason'', ''not_found'')]]\<rparr>"
    by code_simp
  have v: "outcomes ''lock'' False [''11111111-1111-4111-8111-111111111111'', ''user@example.com'', ''nobody@example.com'']
        (fst (snd (auth_headers example_manager example_world)))
        (snd (snd (auth_headers example_manager example_world))) =
     [(''11111111-1111-4111-8111-111111111111'', Acted ''11111111-1111-4111-8111-111111111111'' True),
      (''user@example.com'', Acted ''22222222-2222-4222-9222-222222222222'' True),
      (''nobody@example.com'', Not_resolved)]"
    by code_simp
  have l: "fst (run_loop ''lock'' True [''11111111-1111-4111-8111-111111111111'']
          [[(''identifier'', ''a''), (''reason'', ''not_found'')]] [[(''identifier'', ''b''), (''reason'', ''not_found'')]] example_manager example_world) =
     Inr ([[(''identifier'', ''a''), (''reason'', ''not_found'')],
           [(''identifier'', ''11111111-1111-4111-8111-111111111111''), (''userId'', ''11111111-1111-4111-8111-111111111111''), (''action'', ''lock''), (''status'', ''dry_run'')]],
          [[(''identifier'', ''b''), (''reason'', ''not_found'')]])"
    by code_simp
  note t = run_records [where dry = False and action = "''lock''" and ids = "[''11111111-1111-4111-8111-111111111111'', ''user@example.com'', ''nobody@example.com'']",
      THEN conjunct1, THEN mp, OF outcome_eqI [OF e]]
  note u = run_records [where dry = True and action = "''lock''",
      THEN conjunct2, THEN mp, OF outcome_eqI [OF l]]
  from t have o: "map fst (outcomes ''lock'' False [''11111111-1111-4111-8111-111111111111'', ''user@example.com'', ''nobody@example.com'']
        (fst (snd (auth_headers example_manager example_world)))
        (snd (snd (auth_headers example_manager example_world)))) =
     [''11111111-1111-4111-8111-111111111111'', ''user@example.com'', ''nobody@example.com'']"
    by (rule conjunct1)
  have i: "mset (map identifier_of
     [[(''identifier'', ''11111111-1111-4111-8111-111111111111''), (''userId'', ''11111111-1111-4111-8111-111111111111''), (''action'', ''lock''), (''status'', ''success'')],
      [(''identifier'', ''user@example.com''), (''userId'', ''22222222-2222-4222-9222-222222222222''), (''action'', ''lock''), (''status'', ''success'')],
      [(''identifier'', ''nobody@example.com''), (''reason'', ''not_found'')]]) =
   mset (map Some [''11111111-1111-4111-8111-111111111111'', ''user@example.com'', ''nobody@example.com''])"
    unfolding identifier_of_def by simp
  from u have k: "take (length [[(''identifier'', ''a''), (''reason'', ''not_found'')]])
     [[(''identifier'', ''a''), (''reason'', ''not_found'')],
      [(''identifier'', ''11111111-1111-4111-8111-111111111111''), (''userId'', ''11111111-1111-4111-8111-111111111111''), (''action'', ''lock''), (''status'', ''dry_run'')]] =
     [[(''identifier'', ''a''), (''reason'', ''not_found'')]]"
    by simp
  from e v o i l k show ?thesis by (intro conjI)
qed

text \<open>
  The claim as written fails for an identifier that does not resolve: its record in
  \<open>failed\<close> has neither an action nor a status field.
\<close>

theorem run_records_counterexample:
  "fst (run [''nobody@example.com''] example_manager ''lock'' True example_world) =
     Inr \<lparr>r_success = False, r_action = ''lock'', r_dry_run = True,
           r_processed_count = 0, r_failed_count = 1,
           r_processed = [],
           r_failed = [[(''identifier'', ''nobody@example.com''), (''reason'', ''not_found'')]]\<rparr> \<and>
   map_of [(''identifier'', ''nobody@example.com''), (''reason'', ''not_found'')] ''action'' = None \<and>
   map_of [(''identifier'', ''nobody@example.com''), (''reason'', ''not_found'')] ''status'' = None"
proof -
  have "fst (run [''nobody@example.com''] example_manager ''lock'' True example_world) =
     Inr \<lparr>r_success = False, r_action = ''lock'', r_dry_run = True,
           r_processed_count = 0, r_failed_count = 1,
           r_processed = [],
           r_failed = [[(''identifier'', ''nobody@example.com''), (''reason'', ''not_found'')]]\<rparr>"
    by code_simp
  then show ?thesis by simp
qed

section \<open>Resolving an email address\<close>

text \<open>
  Claim C6, as amended. For an input that does not match the UUID pattern, with a token
  cached and a non-negative delay, \<open>_ensure_user_id\<close> makes one call of the retrying
  client for the email lookup and nothing else: the call returns, and the requests sent
  are copies of the one GET, one when the first answer is a response other than 429, and
  at most \<open>max_retries\<close> more otherwise. Unless the answer is a 200 whose \<open>id\<close> is a truthy
  value that is not a string, the resolver does not raise and returns what the
  specification says: the \<open>id\<close> of a 200 answer with a JSON object whose \<open>id\<close> matches the
  pattern, and none for every other answer.
\<close>

theorem ensure_user_id_lookup:
  assumes "\<not> looks_like_uuid i" and "truthy (bearer_token m)" and "0 \<le> rate_limit_delay m"
  shows
   "(\<exists>j s raw.
       fst (call_api_with_retry m ''GET'' (email_url m i) JNull (Some (bearer_headers m)) 0 w) =
         Inr (j, s, raw) \<and>
       (\<not> non_string_id j s \<longrightarrow>
          ensure_user_id m i w =
            (Inr (lookup_spec j s), m,
             snd (call_api_with_retry m ''GET'' (email_url m i) JNull (Some (bearer_headers m)) 0 w)))) \<and>
    snd (snd (ensure_user_id m i w)) =
      snd (call_api_with_retry m ''GET'' (email_url m i) JNull (Some (bearer_headers m)) 0 w) \<and>
    (\<exists>k>0. int k \<le> max (max_retries m) 0 + 1 \<and>
       new_sent w (snd (snd (ensure_user_id m i w))) =
         replicate k (mk_request ''GET'' (email_url m i) JNull (bearer_headers m))) \<and>
    (\<forall>r. server w (sent w) (mk_request ''GET'' (email_url m i) JNull (bearer_headers m)) = Response r \<and>
         status_code r \<noteq> 429 \<longrightarrow>
         new_sent w (snd (snd (ensure_user_id m i w))) =
           [mk_request ''GET'' (email_url m i) JNull (bearer_headers m)])"
proof -
  let ?req = "mk_request ''GET'' (email_url m i) JNull (bearer_headers m)"
  let ?out = "call_api_with_retry m ''GET'' (email_url m i) JNull (Some (bearer_headers m)) 0 w"
  have e: "ensure_user_id m i w = resolve_user_id_by_email m i w"
    using assms(1) by (simp add: ensure_user_id_def)
  have "\<exists>x. fst ?out = Inr x"
    by (rule call_api_returns[OF assms(3)]) simp
  then obtain x where x: "fst ?out = Inr x" ..
  obtain j s raw where xs: "x = (j, s, raw)" by (cases x) auto
  have out: "?out = (Inr (j, s, raw), snd ?out)"
    using x xs by (simp add: prod_eq_iff)
  have w: "snd (snd (ensure_user_id m i w)) = snd ?out"
    unfolding e by (rule resolve_cached_world[OF assms(2)])
  have a: "\<exists>j s raw. fst ?out = Inr (j, s, raw) \<and>
       (\<not> non_string_id j s \<longrightarrow> ensure_user_id m i w = (Inr (lookup_spec j s), m, snd ?out))"
    using resolve_cached[OF assms(2) out] x xs e by auto
  have b: "\<exists>k>0. int k \<le> max (max_retries m) 0 + 1 \<and>
       new_sent w (snd (snd (ensure_user_id m i w))) = replicate k ?req"
    unfolding w using call_api_sends[OF x] by simp
  have c: "new_sent w (snd (snd (ensure_user_id m i w))) = [?req]"
    if r: "server w (sent w) ?req = Response r \<and> status_code r \<noteq> 429" for r
  proof -
    have "?out = (Inr (result_of r),
        w\<lparr>sent := sent w @ replicate (Suc 0) (mk_request ''GET'' (email_url m i) JNull (the_headers (Some (bearer_headers m)))),
          slept := slept w @ schedule (rate_limit_delay m) 0 0\<rparr>)"
      by (rule retried_then_answered[OF assms(3)]) (use r in simp_all)
    then show ?thesis unfolding w by (simp add: new_sent_def)
  qed
  from a w b c show ?thesis by blast
qed

theorem ensure_user_id_lookup_witness:
  "\<not> looks_like_uuid ''user@example.com'' \<and>
   truthy (bearer_token authenticated_manager) \<and>
   0 \<le> rate_limit_delay authenticated_manager \<and>
   fst (ensure_user_id authenticated_manager ''user@example.com'' example_world) =
     Inr (Some ''22222222-2222-4222-9222-222222222222'') \<and>
   new_sent example_world (snd (snd (ensure_user_id authenticated_manager ''user@example.com'' example_world))) =
     [mk_request ''GET'' (email_url authenticated_manager ''user@example.com'') JNull
        (bearer_headers authenticated_manager)]"
proof -
  have h1: "\<not> looks_like_uuid ''user@example.com''"
    by code_simp
  have h2: "truthy (bearer_token authenticated_manager)"
    and h3: "0 \<le> rate_limit_delay authenticated_manager"
    by (simp_all add: authenticated_manager_def example_manager_def)
  have u: "looks_like_uuid ''22222222-2222-4222-9222-222222222222''"
    by code_simp
  have o: "fst (call_api_with_retry authenticated_manager ''GET'' (email_url authenticated_manager ''user@example.com'') JNull
           (Some (bearer_headers authenticated_manager)) 0 example_world) =
      Inr (JObj [(''id'', JStr ''22222222-2222-4222-9222-222222222222'')], 200, ''(json)'')"
    by code_simp
  have r: "server example_world (sent example_world)
      (mk_request ''GET'' (email_url authenticated_manager ''user@example.com'') JNull
        (bearer_headers authenticated_manager)) =
      Response (json_response 200 (JObj [(''id'', JStr ''22222222-2222-4222-9222-222222222222'')]))"
    by code_simp
  note t = ensure_user_id_lookup [OF h1 h2 h3, where w = example_world]
  from t obtain j s raw where
    js: "fst (call_api_with_retry authenticated_manager ''GET'' (email_url authenticated_manager ''user@example.com'') JNull
           (Some (bearer_headers authenticated_manager)) 0 example_world) = Inr (j, s, raw)"
    and en: "\<not> non_string_id j s \<Longrightarrow>
      ensure_user_id authenticated_manager ''user@example.com'' example_world =
        (Inr (lookup_spec j s), authenticated_manager,
         snd (call_api_with_retry authenticated_manager ''GET'' (email_url authenticated_manager ''user@example.com'') JNull
           (Some (bearer_headers authenticated_manager)) 0 example_world))"
    by blast
  from js o have j: "j = JObj [(''id'', JStr ''22222222-2222-4222-9222-222222222222'')]" and s: "s = 200"
    by simp_all
  have "\<not> non_string_id j s" by (simp add: j s non_string_id_def)
  from en [OF this] have c1: "fst (ensure_user_id authenticated_manager ''user@example.com'' example_world) =
      Inr (Some ''22222222-2222-4222-9222-222222222222'')"
    by (simp add: j s lookup_spec_def u)
  have "status_code (json_response 200 (JObj [(''id'', JStr ''22222222-2222-4222-9222-222222222222'')])) \<noteq> 429"
    by (simp add: json_response_def)
  with t r have c2: "new_sent example_world (snd (snd (ensure_user_id authenticated_manager ''user@example.com'' example_world))) =
     [mk_request ''GET'' (email_url authenticated_manager ''user@example.com'') JNull
        (bearer_headers authenticated_manager)]"
    by blast
  from h1 h2 h3 c1 c2 show ?thesis by (intro conjI)
qed

text \<open>
  The claim as written fails: when the provider answers 429 once, two lookup GETs are
  sent; and when no token is cached and the provider rejects the credentials, the
  resolver raises and no lookup is sent.
\<close>

theorem ensure_user_id_lookup_counterexample:
  "\<not> looks_like_uuid ''user@example.com'' \<and>
   map req_method
     (sent (snd (snd (ensure_user_id authenticated_manager ''user@example.com'' (throttled_world 1))))) =
     [''GET'', ''GET''] \<and>
   fst (ensure_user_id example_manager ''user@example.com'' rejecting_world) =
     Inl (Auth_Exception 401 ''unauthorized'') \<and>
   map req_method
     (sent (snd (snd (ensure_user_id example_manager ''user@example.com'' rejecting_world)))) = [''POST'']"
proof -
  have c0: "\<not> looks_like_uuid ''user@example.com''"
    by code_simp
  have c1: "map req_method
     (sent (snd (snd (ensure_user_id authenticated_manager ''user@example.com'' (throttled_world 1))))) =
     [''GET'', ''GET'']"
    by code_simp
  have c2: "fst (ensure_user_id example_manager ''user@example.com'' rejecting_world) =
     Inl (Auth_Exception 401 ''unauthorized'')"
    by code_simp
  have c3: "map req_method
     (sent (snd (snd (ensure_user_id example_manager ''user@example.com'' rejecting_world)))) = [''POST'']"
    by code_simp
  from c0 c1 c2 c3 show ?thesis by (intro conjI)
qed

section \<open>The cached token\<close>

text \<open>
  Claim C8, as amended. When the cached token is truthy, \<open>_auth_headers\<close> returns the headers
  with this token in the authorization header, sends nothing and leaves the manager as it
  is. \<open>authenticate\<close>, when it succeeds, caches the token it returns. When the cached token
  is \<open>None\<close> or another falsy value, \<open>_auth_headers\<close> calls \<open>authenticate\<close>: with a
  non-negative delay the authentication request is sent, once or again after a retry. So
  the loop of a run that starts with a truthy token keeps this token and sends no
  authentication request.
\<close>

theorem auth_headers_once:
  "(truthy (bearer_token m) \<longrightarrow>
      auth_headers m w = (Inr (bearer_headers m), m, w) \<and>
      map_of (bearer_headers m) ''authorization'' = Some (Bearer (bearer_token m))) \<and>
   (authenticate m w = (Inr t, m1, w1) \<longrightarrow> bearer_token m1 = t) \<and>
   (\<not> truthy (bearer_token m) \<and> 0 \<le> rate_limit_delay m \<longrightarrow>
      (\<exists>k>0. new_sent w (snd (snd (auth_headers m w))) = replicate k (auth_request m))) \<and>
   (truthy (bearer_token m) \<and> run_loop action dry ids p f m w = (res, m', w') \<longrightarrow>
      m' = m \<and> (\<forall>r\<in>set (new_sent w w'). req_url r \<noteq> gateway m @ ''/auth/vendor/''))"
proof (intro conjI impI)
  assume "truthy (bearer_token m)"
  then show "auth_headers m w = (Inr (bearer_headers m), m, w)" by (rule auth_headers_cached)
next
  show "map_of (bearer_headers m) ''authorization'' = Some (Bearer (bearer_token m))"
    by (rule bearer_authorization)
next
  assume "authenticate m w = (Inr t, m1, w1)"
  then have "m1 = m\<lparr>bearer_token := t\<rparr>" by (rule authenticate_token)
  then show "bearer_token m1 = t" by simp
next
  assume "\<not> truthy (bearer_token m) \<and> 0 \<le> rate_limit_delay m"
  then show "\<exists>k>0. new_sent w (snd (snd (auth_headers m w))) = replicate k (auth_request m)"
    using auth_headers_sends by blast
next
  assume a: "truthy (bearer_token m) \<and> run_loop action dry ids p f m w = (res, m', w')"
  then have t: "truthy (bearer_token m)" and r: "run_loop action dry ids p f m w = (res, m', w')"
    by simp_all
  from run_loop_cached[OF t r] show "m' = m" by simp
  from run_loop_cached[OF t r]
  have "steps (\<lambda>r. req_url r \<noteq> gateway m @ ''/auth/vendor/'') m w m' w'" by simp
  then show "\<forall>r\<in>set (new_sent w w'). req_url r \<noteq> gateway m @ ''/auth/vendor/''"
    by (rule steps_all)
qed

theorem auth_headers_once_witness:
  "auth_headers authenticated_manager example_world =
     (Inr (bearer_headers authenticated_manager), authenticated_manager, example_world) \<and>
   fst (authenticate example_manager example_world) = Inr (JStr ''tok'') \<and>
   bearer_token (fst (snd (authenticate example_manager example_world))) = JStr ''tok'' \<and>
   (\<exists>k>0. new_sent example_world (snd (snd (auth_headers example_manager example_world))) =
      replicate k (auth_request example_manager)) \<and>
   fst (snd (run_loop ''lock'' False [''user@example.com''] [] [] authenticated_manager example_world)) =
     authenticated_manager \<and>
   list_all (\<lambda>r. req_url r \<noteq> gateway authenticated_manager @ ''/auth/vendor/'')
     (new_sent example_world
        (snd (snd (run_loop ''lock'' False [''user@example.com''] [] [] authenticated_manager example_world))))"
proof -
  have h1: "truthy (bearer_token authenticated_manager)"
    by (simp add: authenticated_manager_def)
  have h2: "\<not> truthy (bearer_token example_manager) \<and> 0 \<le> rate_limit_delay example_manager"
    by (simp add: example_manager_def)
  have a: "fst (authenticate example_manager example_world) = Inr (JStr ''tok'')"
    by code_simp
  have r: "run_loop ''lock'' False [''user@example.com''] [] [] authenticated_manager example_world =
      (fst (run_loop ''lock'' False [''user@example.com''] [] [] authenticated_manager example_world),
       fst (snd (run_loop ''lock'' False [''user@example.com''] [] [] authenticated_manager example_world)),
       snd (snd (run_loop ''lock'' False [''user@example.com''] [] [] authenticated_manager example_world)))"
    by simp
  note t1 = auth_headers_once [where m = authenticated_manager and w = example_world,
      THEN conjunct1, THEN mp, OF h1, THEN conjunct1]
  note t2 = auth_headers_once [THEN conjunct2, THEN conjunct1, THEN mp, OF outcome_eqI [OF a]]
  note t3 = auth_headers_once [where m = example_manager and w = example_world,
      THEN conjunct2, THEN conjunct2, THEN conjunct1, THEN mp, OF h2]
  note t4 = auth_headers_once [THEN conjunct2, THEN conjunct2, THEN conjunct2, THEN mp,
      OF conjI [OF h1 r]]
  from t4 have c5: "fst (snd (run_loop ''lock'' False [''user@example.com''] [] [] authenticated_manager example_world)) =
     authenticated_manager"
    by simp
  from t4 have c6: "list_all (\<lambda>r. req_url r \<noteq> gateway authenticated_manager @ ''/auth/vendor/'')
     (new_sent example_world
        (snd (snd (run_loop ''lock'' False [''user@example.com''] [] [] authenticated_manager example_world))))"
    by (simp add: list_all_iff)
  from t1 a t2 t3 c5 c6 show ?thesis by (intro conjI)
qed

text \<open>
  The claim as written fails when the provider issues an empty token: \<open>authenticate\<close>
  succeeds and caches it, and the next \<open>_auth_headers\<close> authenticates again, so that a run
  sends the authentication request twice.
\<close>

theorem auth_headers_once_counterexample:
  "fst (authenticate example_manager empty_token_world) = Inr (JStr []) \<and>
   map req_url
     (sent (snd (snd (run [''user@example.com''] example_manager ''lock'' True empty_token_world)))) =
     [''https://api.frontegg.com/auth/vendor/'', ''https://api.frontegg.com/auth/vendor/'',
      ''https://api.frontegg.com/identity/resources/users/v1/email?email=user%40example.com'']"
proof -
  have c1: "fst (authenticate example_manager empty_token_world) = Inr (JStr [])"
    by code_simp
  have c2: "map req_url
     (sent (snd (snd (run [''user@example.com''] example_manager ''lock'' True empty_token_world)))) =
     [''https://api.frontegg.com/auth/vendor/'', ''https://api.frontegg.com/auth/vendor/'',
      ''https://api.frontegg.com/identity/resources/users/v1/email?email=user%40example.com'']"
    by code_simp
  from c1 c2 show ?thesis by (intro conjI)
qed

section \<open>The tenant header of a deletion\<close>

text \<open>
  Claim C9, as amended. Let \<open>c\<close> be the tenant identifier configured in the environment
  (the empty string when the variable is not set). Every DELETE request that \<open>delete_user\<close>
  sends goes to the URL of the user and carries the header \<open>frontegg-tenant-id\<close> with the
  value of \<open>c\<close> stripped of surrounding whitespace when that is not empty, and no such
  header otherwise; and a \<open>delete_user\<close> that returns has sent a DELETE request.
\<close>

theorem delete_user_tenant_header:
  assumes "delete_user m user_id w = (res, m', w')"
    and "getenv w ''FRONTEGG_TENANT_ID'' [] = c"
  shows "(\<forall>r\<in>set (new_sent w w'). req_method r = ''DELETE'' \<longrightarrow>
            req_url r = delete_url m user_id \<and>
            map_of (req_headers r) ''frontegg-tenant-id'' =
              (if strip c = [] then None else Some (Str (strip c)))) \<and>
         (\<forall>ok. res = Inr ok \<longrightarrow> (\<exists>r\<in>set (new_sent w w'). req_method r = ''DELETE''))"
proof (intro conjI ballI impI allI)
  fix r assume r: "r \<in> set (new_sent w w')" "req_method r = ''DELETE''"
  have "r = mk_request ''DELETE'' (delete_url m user_id) JNull (tenant_headers w (bearer_headers m'))"
    using delete_user_steps[OF assms(1)] r by (rule steps_delete_requests)
  then show "req_url r = delete_url m user_id"
    and "map_of (req_headers r) ''frontegg-tenant-id'' =
              (if strip c = [] then None else Some (Str (strip c)))"
    using assms(2) by (simp_all add: tenant_lookup)
next
  fix ok assume "res = Inr ok"
  with assms(1) have "delete_user m user_id w = (Inr ok, m', w')" by simp
  then show "\<exists>r\<in>set (new_sent w w'). req_method r = ''DELETE''"
    by (rule delete_user_sends)
qed

theorem delete_user_tenant_header_witness:
  "getenv (tenant_world ''t1'') ''FRONTEGG_TENANT_ID'' [] = ''t1'' \<and>
   fst (delete_user authenticated_manager ''11111111-1111-4111-8111-111111111111''
        (tenant_world ''t1'')) = Inr True \<and>
   list_all (\<lambda>r. req_method r \<noteq> ''DELETE'' \<or> map_of (req_headers r) ''frontegg-tenant-id'' = Some (Str ''t1''))
     (new_sent (tenant_world ''t1'')
        (snd (snd (delete_user authenticated_manager ''11111111-1111-4111-8111-111111111111''
        (tenant_world ''t1''))))) \<and>
   list_ex (\<lambda>r. req_method r = ''DELETE'')
     (new_sent (tenant_world ''t1'')
        (snd (snd (delete_user authenticated_manager ''11111111-1111-4111-8111-111111111111''
        (tenant_world ''t1'')))))"
proof -
  have h: "getenv (tenant_world ''t1'') ''FRONTEGG_TENANT_ID'' [] = ''t1''"
    by (simp add: getenv_def tenant_world_def)
  have d: "fst (delete_user authenticated_manager ''11111111-1111-4111-8111-111111111111''
        (tenant_world ''t1'')) = Inr True"
    by code_simp
  have s: "strip ''t1'' = ''t1''"
    by code_simp
  note t = delete_user_tenant_header [OF outcome_eqI [OF d] h]
  from t have a: "list_all (\<lambda>r. req_method r \<noteq> ''DELETE'' \<or> map_of (req_headers r) ''frontegg-tenant-id'' = Some (Str ''t1''))
     (new_sent (tenant_world ''t1'')
        (snd (snd (delete_user authenticated_manager ''11111111-1111-4111-8111-111111111111''
        (tenant_world ''t1'')))))"
    unfolding list_all_iff s by auto
  from t have b: "list_ex (\<lambda>r. req_method r = ''DELETE'')
     (new_sent (tenant_world ''t1'')
        (snd (snd (delete_user authenticated_manager ''11111111-1111-4111-8111-111111111111''
        (tenant_world ''t1'')))))"
    unfolding list_ex_iff by blast
  from h d a b show ?thesis by (intro conjI)
qed

text \<open>
  The claim as written fails when the configured identifier has surrounding whitespace:
  with \<open>" t1 "\<close> the header is \<open>"t1"\<close>, not the configured value, and with a configured
  value of spaces only, which is not empty, the DELETE request carries no header.
\<close>

theorem delete_user_tenant_header_counterexample:
  "fst (delete_user authenticated_manager ''11111111-1111-4111-8111-111111111111''
        (tenant_world '' t1 '')) = Inr True \<and>
   map (\<lambda>r. (req_method r, map_of (req_headers r) ''frontegg-tenant-id''))
     (sent (snd (snd (delete_user authenticated_manager ''11111111-1111-4111-8111-111111111111''
        (tenant_world '' t1 ''))))) =
     [(''DELETE'', Some (Str ''t1''))] \<and>
   map (\<lambda>r. (req_method r, map_of (req_headers r) ''frontegg-tenant-id''))
     (sent (snd (snd (delete_user authenticated_manager ''11111111-1111-4111-8111-111111111111''
        (tenant_world ''   ''))))) =
     [(''DELETE'', None)]"
proof -
  have c1: "fst (delete_user authenticated_manager ''11111111-1111-4111-8111-111111111111''
        (tenant_world '' t1 '')) = Inr True"
    by code_simp
  have c2: "map (\<lambda>r. (req_method r, map_of (req_headers r) ''frontegg-tenant-id''))
     (sent (snd (snd (delete_user authenticated_manager ''11111111-1111-4111-8111-111111111111''
        (tenant_world '' t1 ''))))) =
     [(''DELETE'', Some (Str ''t1''))]"
    by code_simp
  have c3: "map (\<lambda>r. (req_method r, map_of (req_headers r) ''frontegg-tenant-id''))
     (sent (snd (snd (delete_user authenticated_manager ''11111111-1111-4111-8111-111111111111''
        (tenant_world ''   ''))))) =
     [(''DELETE'', None)]"
    by code_simp
  from c1 c2 c3 show ?thesis by (intro conjI)
qed

text \<open>
  Claim C10. A \<open>delete_user\<close> that returns has sent a DELETE request, and the header of
  every DELETE request it sends is determined by the value of \<open>FRONTEGG_TENANT_ID\<close> in the
  environment of the call, stripped of whitespace: the header is there, with the stripped
  value, if and only if that value is not empty. The \<open>tenant_id\<close> captured by the
  constructor plays no part: with another captured value the call returns the same
  result and leaves the same world. So the same manager sends the header of one
  environment and no header in another.
\<close>

theorem delete_user_tenant_at_call_time:
  assumes "delete_user m user_id w = (res, m', w')"
  shows "(\<forall>r\<in>set (new_sent w w'). req_method r = ''DELETE'' \<longrightarrow>
            map_of (req_headers r) ''frontegg-tenant-id'' =
              (if strip (getenv w ''FRONTEGG_TENANT_ID'' []) = [] then None
               else Some (Str (strip (getenv w ''FRONTEGG_TENANT_ID'' []))))) \<and>
         (\<forall>ok. res = Inr ok \<longrightarrow> (\<exists>r\<in>set (new_sent w w'). req_method r = ''DELETE'')) \<and>
         delete_user (m\<lparr>tenant_id := t\<rparr>) user_id w = (res, m'\<lparr>tenant_id := t\<rparr>, w')"
proof (intro conjI ballI impI allI)
  fix r assume r: "r \<in> set (new_sent w w')" "req_method r = ''DELETE''"
  have "r = mk_request ''DELETE'' (delete_url m user_id) JNull (tenant_headers w (bearer_headers m'))"
    using delete_user_steps[OF assms(1)] r by (rule steps_delete_requests)
  then show "map_of (req_headers r) ''frontegg-tenant-id'' =
              (if strip (getenv w ''FRONTEGG_TENANT_ID'' []) = [] then None
               else Some (Str (strip (getenv w ''FRONTEGG_TENANT_ID'' []))))"
    by (simp add: tenant_lookup)
next
  fix ok assume "res = Inr ok"
  with assms have "delete_user m user_id w = (Inr ok, m', w')" by simp
  then show "\<exists>r\<in>set (new_sent w w'). req_method r = ''DELETE''"
    by (rule delete_user_sends)
next
  show "delete_user (m\<lparr>tenant_id := t\<rparr>) user_id w = (res, m'\<lparr>tenant_id := t\<rparr>, w')"
    by (simp add: delete_user_tenant assms)
qed

theorem delete_user_tenant_at_call_time_witness:
  "fst (delete_user (authenticated_manager\<lparr>tenant_id := ''A''\<rparr>) ''11111111-1111-4111-8111-111111111111''
        (tenant_world ''B'')) = Inr True \<and>
   map (\<lambda>r. (req_method r, map_of (req_headers r) ''frontegg-tenant-id''))
     (new_sent (tenant_world ''B'')
        (snd (snd (delete_user (authenticated_manager\<lparr>tenant_id := ''A''\<rparr>) ''11111111-1111-4111-8111-111111111111''
        (tenant_world ''B''))))) =
     [(''DELETE'', Some (Str ''B''))] \<and>
   map (\<lambda>r. (req_method r, map_of (req_headers r) ''frontegg-tenant-id''))
     (new_sent example_world
        (snd (snd (delete_user (authenticated_manager\<lparr>tenant_id := ''A''\<rparr>) ''11111111-1111-4111-8111-111111111111''
        (example_world))))) =
     [(''DELETE'', None)] \<and>
   list_ex (\<lambda>r. req_method r = ''DELETE'')
     (new_sent (tenant_world ''B'')
        (snd (snd (delete_user (authenticated_manager\<lparr>tenant_id := ''A''\<rparr>) ''11111111-1111-4111-8111-111111111111''
        (tenant_world ''B''))))) \<and>
   list_all (\<lambda>r. req_method r \<noteq> ''DELETE'' \<or> map_of (req_headers r) ''frontegg-tenant-id'' = Some (Str ''B''))
     (new_sent (tenant_world ''B'')
        (snd (snd (delete_user (authenticated_manager\<lparr>tenant_id := ''A''\<rparr>) ''11111111-1111-4111-8111-111111111111''
        (tenant_world ''B''))))) \<and>
   fst (delete_user (authenticated_manager\<lparr>tenant_id := ''C''\<rparr>) ''11111111-1111-4111-8111-111111111111''
        (tenant_world ''B'')) = Inr True \<and>
   snd (snd (delete_user (authenticated_manager\<lparr>tenant_id := ''C''\<rparr>) ''11111111-1111-4111-8111-111111111111''
        (tenant_world ''B''))) =
   snd (snd (delete_user (authenticated_manager\<lparr>tenant_id := ''A''\<rparr>) ''11111111-1111-4111-8111-111111111111''
        (tenant_world ''B'')))"
proof -
  have d: "fst (delete_user (authenticated_manager\<lparr>tenant_id := ''A''\<rparr>) ''11111111-1111-4111-8111-111111111111''
        (tenant_world ''B'')) = Inr True"
    by code_simp
  have v1: "map (\<lambda>r. (req_method r, map_of (req_headers r) ''frontegg-tenant-id''))
     (new_sent (tenant_world ''B'')
        (snd (snd (delete_user (authenticated_manager\<lparr>tenant_id := ''A''\<rparr>) ''11111111-1111-4111-8111-111111111111''
        (tenant_world ''B''))))) =
     [(''DELETE'', Some (Str ''B''))]"
    by code_simp
  have v2: "map (\<lambda>r. (req_method r, map_of (req_headers r) ''frontegg-tenant-id''))
     (new_sent example_world
        (snd (snd (delete_user (authenticated_manager\<lparr>tenant_id := ''A''\<rparr>) ''11111111-1111-4111-8111-111111111111''
        (example_world))))) =
     [(''DELETE'', None)]"
    by code_simp
  have s: "strip (getenv (tenant_world ''B'') ''FRONTEGG_TENANT_ID'' []) = ''B''"
    by code_simp
  note t = delete_user_tenant_at_call_time [OF outcome_eqI [OF d], where t = "''C''"]
  from t have e: "list_ex (\<lambda>r. req_method r = ''DELETE'')
     (new_sent (tenant_world ''B'')
        (snd (snd (delete_user (authenticated_manager\<lparr>tenant_id := ''A''\<rparr>) ''11111111-1111-4111-8111-111111111111''
        (tenant_world ''B'')))))"
    unfolding list_ex_iff by blast
  from t have a: "list_all (\<lambda>r. req_method r \<noteq> ''DELETE'' \<or> map_of (req_headers r) ''frontegg-tenant-id'' = Some (Str ''B''))
     (new_sent (tenant_world ''B'')
        (snd (snd (delete_user (authenticated_manager\<lparr>tenant_id := ''A''\<rparr>) ''11111111-1111-4111-8111-111111111111''
        (tenant_world ''B'')))))"
    unfolding list_all_iff s by auto
  from t have b: "fst (delete_user (authenticated_manager\<lparr>tenant_id := ''C''\<rparr>) ''11111111-1111-4111-8111-111111111111''
        (tenant_world ''B'')) = Inr True"
    by simp
  from t have c: "snd (snd (delete_user (authenticated_manager\<lparr>tenant_id := ''C''\<rparr>) ''11111111-1111-4111-8111-111111111111''
        (tenant_world ''B''))) =
   snd (snd (delete_user (authenticated_manager\<lparr>tenant_id := ''A''\<rparr>) ''11111111-1111-4111-8111-111111111111''
        (tenant_world ''B'')))"
    by simp
  from d v1 v2 e a b c show ?thesis by (intro conjI)
qed

section \<open>Retries on HTTP 429\<close>

text \<open>
  Claim C7, as amended. A call with a non-negative delay and a supported method, started
  with retry count 0. When the first \<open>N\<close> attempts are answered 429, \<open>N\<close> not above
  \<open>max_retries\<close>, and the next attempt is answered by a response \<open>r\<close> of another status, the
  call returns the result of \<open>r\<close> after \<open>N\<close> retries (\<open>N + 1\<close> copies of the request are sent).
  The back-off waits are \<open>2 ^ i * rate_limit_delay\<close> for \<open>i\<close> in \<open>[0, N)\<close>, in this order, and
  their total is the sum of these. They are not all the call sleeps: \<open>rate_limit_delay\<close> is
  slept before each of the \<open>N + 1\<close> attempts, so the time slept in total is that sum plus
  \<open>(N + 1) * rate_limit_delay\<close>. When the attempt made after \<open>max_retries\<close> retries is
  answered 429 again, the call returns status 429 with the raw body of this last response.
\<close>

theorem call_api_with_retry_429:
  assumes "0 \<le> rate_limit_delay m" and "valid_method method"
  shows
   "(int N \<le> max_retries m \<and>
     (\<forall>i<N. answers_429 w (mk_request method url payload (the_headers hdrs)) i) \<and>
     server w (sent w @ replicate N (mk_request method url payload (the_headers hdrs)))
        (mk_request method url payload (the_headers hdrs)) = Response r \<and>
     status_code r \<noteq> 429 \<longrightarrow>
       fst (call_api_with_retry m method url payload hdrs 0 w) = Inr (result_of r) \<and>
       new_sent w (snd (call_api_with_retry m method url payload hdrs 0 w)) =
         replicate (Suc N) (mk_request method url payload (the_headers hdrs)) \<and>
       waits Backoff w (snd (call_api_with_retry m method url payload hdrs 0 w)) =
         map (\<lambda>i. 2 ^ i * rate_limit_delay m) [0..<N] \<and>
       sum_list (waits Backoff w (snd (call_api_with_retry m method url payload hdrs 0 w))) =
         (\<Sum>i<N. 2 ^ i * rate_limit_delay m) \<and>
       waits Throttle w (snd (call_api_with_retry m method url payload hdrs 0 w)) =
         replicate (Suc N) (rate_limit_delay m) \<and>
       sum_list (slept_since w (snd (call_api_with_retry m method url payload hdrs 0 w))) =
         (\<Sum>i<N. 2 ^ i * rate_limit_delay m) + of_nat (Suc N) * rate_limit_delay m) \<and>
    ((\<forall>i<nat (max_retries m). answers_429 w (mk_request method url payload (the_headers hdrs)) i) \<and>
     server w (sent w @ replicate (nat (max_retries m)) (mk_request method url payload (the_headers hdrs)))
        (mk_request method url payload (the_headers hdrs)) = Response r' \<and>
     status_code r' = 429 \<longrightarrow>
       fst (call_api_with_retry m method url payload hdrs 0 w) = Inr (JNull, 429, body_text r') \<and>
       new_sent w (snd (call_api_with_retry m method url payload hdrs 0 w)) =
         replicate (Suc (nat (max_retries m))) (mk_request method url payload (the_headers hdrs)) \<and>
       waits Backoff w (snd (call_api_with_retry m method url payload hdrs 0 w)) =
         map (\<lambda>i. 2 ^ i * rate_limit_delay m) [0..<nat (max_retries m)])"
proof (intro conjI impI)
  let ?req = "mk_request method url payload (the_headers hdrs)"
  let ?out = "call_api_with_retry m method url payload hdrs 0 w"
  {
    assume h: "int N \<le> max_retries m \<and> (\<forall>i<N. answers_429 w ?req i) \<and>
       server w (sent w @ replicate N ?req) ?req = Response r \<and> status_code r \<noteq> 429"
    have out: "?out = (Inr (result_of r),
        w\<lparr>sent := sent w @ replicate (Suc N) ?req,
          slept := slept w @ schedule (rate_limit_delay m) 0 N\<rparr>)"
      by (rule retried_then_answered[OF assms]) (use h in simp_all)
    show "fst ?out = Inr (result_of r)" by (simp add: out)
    show "new_sent w (snd ?out) = replicate (Suc N) ?req" by (simp add: out new_sent_def)
    show b: "waits Backoff w (snd ?out) = map (\<lambda>i. 2 ^ i * rate_limit_delay m) [0..<N]"
      using schedule_backoff[of "rate_limit_delay m" 0 N] by (simp add: out waits_def)
    show "sum_list (waits Backoff w (snd ?out)) = (\<Sum>i<N. 2 ^ i * rate_limit_delay m)"
      unfolding b by (rule sum_list_upt)
    show "waits Throttle w (snd ?out) = replicate (Suc N) (rate_limit_delay m)"
      using schedule_throttle[of "rate_limit_delay m" 0 N] by (simp add: out waits_def)
    have "slept_since w (snd ?out) = map snd (schedule (rate_limit_delay m) 0 N)"
      by (simp add: out slept_since_def)
    then show "sum_list (slept_since w (snd ?out)) =
        (\<Sum>i<N. 2 ^ i * rate_limit_delay m) + of_nat (Suc N) * rate_limit_delay m"
      using schedule_total[of "rate_limit_delay m" 0 N]
            sum_list_upt[of "\<lambda>i. 2 ^ i * rate_limit_delay m" N]
      by simp
  }
  {
    let ?K = "nat (max_retries m)"
    assume h: "(\<forall>i<?K. answers_429 w ?req i) \<and>
       server w (sent w @ replicate ?K ?req) ?req = Response r' \<and> status_code r' = 429"
    have out: "?out = (Inr (result_of r'),
        w\<lparr>sent := sent w @ replicate (Suc ?K) ?req,
          slept := slept w @ schedule (rate_limit_delay m) 0 ?K\<rparr>)"
    proof (rule retried_then_answered[OF assms])
      show "?K = 0 \<or> int 0 + int ?K \<le> max_retries m" by auto
      show "\<forall>i<?K. answers_429 w ?req i" using h by simp
      show "server w (sent w @ replicate ?K ?req) ?req = Response r'" using h by simp
      show "status_code r' \<noteq> 429 \<or> max_retries m \<le> int 0 + int ?K" by auto
    qed
    have res: "result_of r' = (JNull, 429, body_text r')"
      using h by (simp add: result_of_def)
    show "fst ?out = Inr (JNull, 429, body_text r')" by (simp add: out res)
    show "new_sent w (snd ?out) = replicate (Suc ?K) ?req" by (simp add: out new_sent_def)
    show "waits Backoff w (snd ?out) = map (\<lambda>i. 2 ^ i * rate_limit_delay m) [0..<?K]"
      using schedule_backoff[of "rate_limit_delay m" 0 ?K] by (simp add: out waits_def)
  }
qed

theorem call_api_with_retry_429_witness:
  "fst (call_api_with_retry example_manager ''GET'' ''u'' JNull None 0 (throttled_world 2)) =
     Inr (JObj [(''id'', JStr ''22222222-2222-4222-9222-222222222222'')], 200, ''(json)'') \<and>
   length (new_sent (throttled_world 2)
     (snd (call_api_with_retry example_manager ''GET'' ''u'' JNull None 0 (throttled_world 2)))) = 3 \<and>
   waits Backoff (throttled_world 2)
     (snd (call_api_with_retry example_manager ''GET'' ''u'' JNull None 0 (throttled_world 2))) =
     [1 / 2, 1] \<and>
   sum_list (waits Backoff (throttled_world 2)
     (snd (call_api_with_retry example_manager ''GET'' ''u'' JNull None 0 (throttled_world 2)))) =
     3 / 2 \<and>
   sum_list (slept_since (throttled_world 2)
     (snd (call_api_with_retry example_manager ''GET'' ''u'' JNull None 0 (throttled_world 2)))) =
     3 \<and>
   fst (call_api_with_retry example_manager ''GET'' ''u'' JNull None 0 (throttled_world 4)) =
     Inr (JNull, 429, ''slow down'') \<and>
   length (new_sent (throttled_world 4)
     (snd (call_api_with_retry example_manager ''GET'' ''u'' JNull None 0 (throttled_world 4)))) = 4"
proof -
  have d: "0 \<le> rate_limit_delay example_manager" and vm: "valid_method ''GET''"
    by (simp_all add: example_manager_def valid_method_def)
  have mr: "max_retries example_manager = 3" "rate_limit_delay example_manager = 1 / 2"
    by (simp_all add: example_manager_def)
  have a: "answers_429 (throttled_world n) req i = (i < n)" for n req i
    by (simp add: answers_429_def throttled_world_def throttling_provider_def plain_response_def
                  json_response_def)
  have s2: "server (throttled_world 2) (sent (throttled_world 2) @ replicate 2 req) req =
      Response (json_response 200 (JObj [(''id'', JStr ''22222222-2222-4222-9222-222222222222'')]))" for req
    by (simp add: throttled_world_def throttling_provider_def)
  have s4: "server (throttled_world 4) (sent (throttled_world 4) @ replicate 3 req) req =
      Response (plain_response 429 ''slow down'')" for req
    by (simp add: throttled_world_def throttling_provider_def)
  have r2: "result_of (json_response 200 j) = (j, 200, ''(json)'')" for j
    by (simp add: result_of_def json_response_def)
  have n3: "nat 3 = 3" by simp
  note t2 = call_api_with_retry_429 [OF d vm, where N = 2 and w = "throttled_world 2"
      and url = "''u''" and payload = JNull and hdrs = None
      and r = "json_response 200 (JObj [(''id'', JStr ''22222222-2222-4222-9222-222222222222'')])",
      THEN conjunct1]
  note t4 = call_api_with_retry_429 [OF d vm, where w = "throttled_world 4"
      and url = "''u''" and payload = JNull and hdrs = None
      and r' = "plain_response 429 ''slow down''", THEN conjunct2]
  have up2: "[0..<2] = [0, Suc 0]"
    by (simp add: numeral_2_eq_2)
  have h2: "int 2 \<le> max_retries example_manager \<and>
     (\<forall>i<2. answers_429 (throttled_world 2) (mk_request ''GET'' ''u'' JNull (the_headers None)) i) \<and>
     server (throttled_world 2)
       (sent (throttled_world 2) @ replicate 2 (mk_request ''GET'' ''u'' JNull (the_headers None)))
       (mk_request ''GET'' ''u'' JNull (the_headers None)) =
       Response (json_response 200 (JObj [(''id'', JStr ''22222222-2222-4222-9222-222222222222'')])) \<and>
     status_code (json_response 200 (JObj [(''id'', JStr ''22222222-2222-4222-9222-222222222222'')])) \<noteq> 429"
    by (simp add: mr a s2 json_response_def)
  note c = t2 [THEN mp, OF h2]
  have c2a: "fst (call_api_with_retry example_manager ''GET'' ''u'' JNull None 0 (throttled_world 2)) =
       Inr (JObj [(''id'', JStr ''22222222-2222-4222-9222-222222222222'')], 200, ''(json)'')"
    using c by (simp add: r2)
  have c2b: "length (new_sent (throttled_world 2)
       (snd (call_api_with_retry example_manager ''GET'' ''u'' JNull None 0 (throttled_world 2)))) = 3"
    using c by simp
  have c2c: "waits Backoff (throttled_world 2)
       (snd (call_api_with_retry example_manager ''GET'' ''u'' JNull None 0 (throttled_world 2))) =
       [1 / 2, 1]"
    using c by (simp add: mr up2)
  have c2d: "sum_list (waits Backoff (throttled_world 2)
       (snd (call_api_with_retry example_manager ''GET'' ''u'' JNull None 0 (throttled_world 2)))) =
       3 / 2"
    unfolding c2c by simp
  have c2e: "sum_list (slept_since (throttled_world 2)
       (snd (call_api_with_retry example_manager ''GET'' ''u'' JNull None 0 (throttled_world 2)))) =
       3"
    using c by (simp add: mr numeral_2_eq_2 lessThan_Suc)
  have h4: "(\<forall>i<nat (max_retries example_manager).
        answers_429 (throttled_world 4) (mk_request ''GET'' ''u'' JNull (the_headers None)) i) \<and>
     server (throttled_world 4)
       (sent (throttled_world 4) @
        replicate (nat (max_retries example_manager)) (mk_request ''GET'' ''u'' JNull (the_headers None)))
       (mk_request ''GET'' ''u'' JNull (the_headers None)) =
       Response (plain_response 429 ''slow down'') \<and>
     status_code (plain_response 429 ''slow down'') = 429"
    by (simp add: mr a s4 plain_response_def)
  note e = t4 [THEN mp, OF h4]
  have c4a: "fst (call_api_with_retry example_manager ''GET'' ''u'' JNull None 0 (throttled_world 4)) =
       Inr (JNull, 429, ''slow down'')"
    using e by (simp add: plain_response_def)
  have c4b: "length (new_sent (throttled_world 4)
       (snd (call_api_with_retry example_manager ''GET'' ''u'' JNull None 0 (throttled_world 4)))) = 4"
    using e by (simp add: mr)
  from c2a c2b c2c c2d c2e c4a c4b show ?thesis by (intro conjI)
qed

text \<open>
  The claim as written fails on the total: with a delay of one half and two answers 429
  before a 200, the call sleeps at the throttle, at the back-off, at the throttle, at the
  back-off and at the throttle again, 3 seconds in all, and the sum of
  \<open>2 ^ i * rate_limit_delay\<close> for \<open>i\<close> in \<open>[0, 2)\<close> is 3 / 2.
\<close>

theorem call_api_with_retry_429_counterexample:
  "fst (call_api_with_retry example_manager ''GET'' ''u'' JNull None 0 (throttled_world 2)) =
     Inr (JObj [(''id'', JStr ''22222222-2222-4222-9222-222222222222'')], 200, ''(json)'') \<and>
   map fst (slept (snd (call_api_with_retry example_manager ''GET'' ''u'' JNull None 0 (throttled_world 2)))) =
     [Throttle, Backoff, Throttle, Backoff, Throttle] \<and>
   sum_list (map snd (slept (snd (call_api_with_retry example_manager ''GET'' ''u'' JNull None 0 (throttled_world 2))))) =
     3 \<and>
   sum_list (map (\<lambda>i. 2 ^ i * rate_limit_delay example_manager) [0..<2]) = 3 / 2"
proof -
  have c1: "fst (call_api_with_retry example_manager ''GET'' ''u'' JNull None 0 (throttled_world 2)) =
     Inr (JObj [(''id'', JStr ''22222222-2222-4222-9222-222222222222'')], 200, ''(json)'')"
    by code_simp
  have c2: "map fst (slept (snd (call_api_with_retry example_manager ''GET'' ''u'' JNull None 0 (throttled_world 2)))) =
     [Throttle, Backoff, Throttle, Backoff, Throttle]"
    by code_simp
  have c3: "sum_list (map snd (slept (snd (call_api_with_retry example_manager ''GET'' ''u'' JNull None 0 (throttled_world 2))))) =
     3"
    by code_simp
  have c4: "sum_list (map (\<lambda>i. 2 ^ i * rate_limit_delay example_manager) [0..<2]) = 3 / 2"
    by code_simp
  from c1 c2 c3 c4 show ?thesis by (intro conjI)
qed

end
